theory Spec2Isabelle
  imports
    Complex_Main
    "HOL-Library.Multiset"
    "HOL-Library.Char_ord"
    "HOL-Library.List_Lexorder"
begin

section \<open>The reading log: entries\<close>

text \<open>
  An entry of \<^verbatim>\<open>allSampleData\<close> (src/data/readingData.js), with the properties that the
  filter, the sort comparator and the two aggregation functions read.

  A string is a list of code units below U+0100 (Basic Latin and Latin-1): one
  \<open>char\<close> is one code unit, and code units from U+0100 on are outside the model. The
  title, the author and the tags are always there: the filter calls methods on them.

  A date is \<open>None\<close> when the property is \<^verbatim>\<open>null\<close> or not there at all: the code reads a
  date only through \<^verbatim>\<open>aValue || '1900-01-01'\<close>, where both are falsy. For the rating and
  the impact the two differ (\<^verbatim>\<open>null\<close> compares as 0, \<^verbatim>\<open>undefined\<close> as \<^verbatim>\<open>NaN\<close>), so an
  optional number is \<open>Absent\<close>, \<open>Null\<close> or a number.
\<close>

datatype optnum = Absent | Null | Number int

record entry =
  entry_id :: string
  dateAdded :: "string option"
  dateRead :: "string option"
  title :: string
  author :: string
  type :: string
  tags :: "string list"
  status :: string
  rating :: optnum
  impact :: optnum

section \<open>Strings\<close>

text \<open>
  \<^verbatim>\<open>toLowerCase\<close> on these code units: the capital letters are A to Z (U+0041 to
  U+005A) and U+00C0 to U+00DE without the multiplication sign U+00D7; the small
  letter of each is 32 code units further. Every other code unit below U+0100 stays
  (the sharp s U+00DF and the micro sign U+00B5 are small letters already).
\<close>

definition isUpperCase :: "char \<Rightarrow> bool" where
  "isUpperCase c =
     (let n = (of_char c :: nat)
      in (65 \<le> n \<and> n \<le> 90) \<or> (192 \<le> n \<and> n \<le> 222 \<and> n \<noteq> 215))"

definition lower_char :: "char \<Rightarrow> char" where
  "lower_char c = (if isUpperCase c then char_of (of_char c + (32::nat)) else c)"

definition toLowerCase :: "string \<Rightarrow> string" where
  "toLowerCase s = map lower_char s"

fun startsWith :: "string \<Rightarrow> string \<Rightarrow> bool" where
  "startsWith s [] = True"
| "startsWith [] (c # t) = False"
| "startsWith (x # s) (c # t) = (x = c \<and> startsWith s t)"

text \<open>\<^verbatim>\<open>s.includes(t)\<close>: \<open>t\<close> occurs in \<open>s\<close> as a contiguous run.\<close>

fun includesStr :: "string \<Rightarrow> string \<Rightarrow> bool" where
  "includesStr [] t = (t = [])"
| "includesStr (x # s) t = (startsWith (x # s) t \<or> includesStr s t)"

section \<open>The filter predicate of \<^verbatim>\<open>filteredData\<close> (src/App.jsx)\<close>

definition matchesSearch :: "string \<Rightarrow> entry \<Rightarrow> bool" where
  "matchesSearch searchTerm item =
     (includesStr (toLowerCase (title item)) (toLowerCase searchTerm) \<or>
      includesStr (toLowerCase (author item)) (toLowerCase searchTerm) \<or>
      list_ex (\<lambda>tag. includesStr (toLowerCase tag) (toLowerCase searchTerm)) (tags item))"

definition matchesStatus :: "string \<Rightarrow> entry \<Rightarrow> bool" where
  "matchesStatus selectedStatus item =
     (selectedStatus = ''all'' \<or> status item = selectedStatus)"

definition matchesType :: "string \<Rightarrow> entry \<Rightarrow> bool" where
  "matchesType selectedType item = (selectedType = ''all'' \<or> type item = selectedType)"

definition matchesTag :: "string \<Rightarrow> entry \<Rightarrow> bool" where
  "matchesTag selectedTag item =
     (selectedTag = ''all'' \<or> selectedTag \<in> set (tags item))"

definition passes :: "string \<Rightarrow> string \<Rightarrow> string \<Rightarrow> string \<Rightarrow> entry \<Rightarrow> bool" where
  "passes searchTerm selectedStatus selectedType selectedTag item =
     (matchesSearch searchTerm item \<and> matchesStatus selectedStatus item \<and>
      matchesType selectedType item \<and> matchesTag selectedTag item)"

section \<open>The sort comparator of \<^verbatim>\<open>filteredData\<close>\<close>

text \<open>
  The values the comparator compares: \<^verbatim>\<open>undefined\<close> (the rating of an entry without
  that property), \<^verbatim>\<open>null\<close>, a number, a string or a \<^verbatim>\<open>Date\<close>. A \<^verbatim>\<open>Date\<close> carries its time
  value in milliseconds, \<open>None\<close> for an invalid date (\<^verbatim>\<open>NaN\<close>).
\<close>

datatype jsval = JUndefined | JNull | JNum int | JStr string | JDate "int option"

text \<open>The four options of the sort select of the page.\<close>

datatype sortField = SortDateAdded | SortDateRead | SortTitle | SortRating

text \<open>\<^verbatim>\<open>aValue || '1900-01-01'\<close>: \<^verbatim>\<open>null\<close> and the empty string are falsy.\<close>

definition orSentinel :: "string option \<Rightarrow> string" where
  "orSentinel v = (case v of None \<Rightarrow> ''1900-01-01'' | Some s \<Rightarrow> if s = [] then ''1900-01-01'' else s)"

text \<open>
  \<^verbatim>\<open>a[sortBy]\<close>, followed for the two date fields by \<^verbatim>\<open>new Date(aValue || '1900-01-01')\<close>.
  The parser of the \<^verbatim>\<open>Date\<close> constructor belongs to the JavaScript engine and is a
  parameter \<open>dateParse\<close>: the time value of a string, \<open>None\<close> where the engine yields an
  invalid date.
\<close>

definition sortValue :: "(string \<Rightarrow> int option) \<Rightarrow> sortField \<Rightarrow> entry \<Rightarrow> jsval" where
  "sortValue dateParse sortBy a =
     (case sortBy of
        SortDateAdded \<Rightarrow> JDate (dateParse (orSentinel (dateAdded a)))
      | SortDateRead \<Rightarrow> JDate (dateParse (orSentinel (dateRead a)))
      | SortTitle \<Rightarrow> JStr (title a)
      | SortRating \<Rightarrow>
          (case rating a of Absent \<Rightarrow> JUndefined | Null \<Rightarrow> JNull | Number r \<Rightarrow> JNum r))"

text \<open>
  The conversion to a number that \<^verbatim>\<open><\<close> and \<^verbatim>\<open>>\<close> apply when the operands are not
  both strings: \<^verbatim>\<open>undefined\<close> is \<^verbatim>\<open>NaN\<close> (\<open>None\<close>), \<^verbatim>\<open>null\<close> is 0, a date is its
  time value. A string meets a non-string
  operand only when the operands come from different properties, which the
  comparator never does (lemma \<open>sortValue_same_kind\<close>); the numeric reading of a
  string is left out and stands as \<open>None\<close>.
\<close>

fun toNumber :: "jsval \<Rightarrow> int option" where
  "toNumber JUndefined = None"
| "toNumber JNull = Some 0"
| "toNumber (JNum n) = Some n"
| "toNumber (JDate t) = t"
| "toNumber (JStr s) = None"

text \<open>
  \<^verbatim>\<open>x < y\<close>: two strings are compared code unit by code unit, anything else as
  numbers, and a comparison with \<^verbatim>\<open>NaN\<close> is false.
\<close>

fun js_lt :: "jsval \<Rightarrow> jsval \<Rightarrow> bool" where
  "js_lt (JStr s) (JStr t) = (s < t)"
| "js_lt x y = (case (toNumber x, toNumber y) of (Some m, Some n) \<Rightarrow> m < n | _ \<Rightarrow> False)"

definition js_gt :: "jsval \<Rightarrow> jsval \<Rightarrow> bool" where
  "js_gt x y = js_lt y x"

definition comparator ::
  "(string \<Rightarrow> int option) \<Rightarrow> sortField \<Rightarrow> string \<Rightarrow> entry \<Rightarrow> entry \<Rightarrow> int" where
  "comparator dateParse sortBy sortOrder a b =
     (let aValue = sortValue dateParse sortBy a;
          bValue = sortValue dateParse sortBy b
      in if sortOrder = ''asc''
         then (if js_gt aValue bValue then 1 else -1)
         else (if js_lt aValue bValue then 1 else -1))"

section \<open>\<^verbatim>\<open>Array.prototype.sort\<close>\<close>

text \<open>
  The sort of the engine is a parameter \<open>srt\<close> of the view. The comparator of
  \<^verbatim>\<open>filteredData\<close> never returns 0, so it is not a consistent comparator in the sense
  of ECMAScript, which then leaves the order to the engine. What is assumed of the
  engine: the result is a rearrangement of the array; and for a comparator that
  never returns 0 on the elements and for which "the comparator does not put \<open>a\<close>
  after \<open>b\<close>" (a result \<open>\<le> 0\<close>, here a negative one) is a total and transitive relation on them, the
  result is ordered by that relation. Nothing is assumed about the order for any
  other comparator. Two insertion sorts that meet the contract follow. Both take the
  elements from left to right: \<open>sort_keep\<close> puts an element behind those it is not
  before, as a merge that prefers its left run does, and leaves tied elements in their
  order; \<open>sort_flip\<close> puts it in front of the first element it is before (a negative
  result), as an insertion by binary search does, and reverses them.
\<close>

definition notAfter :: "('a \<Rightarrow> 'a \<Rightarrow> int) \<Rightarrow> 'a \<Rightarrow> 'a \<Rightarrow> bool" where
  "notAfter c a b = (c a b \<le> 0)"

definition total_on_list :: "('a \<Rightarrow> 'a \<Rightarrow> int) \<Rightarrow> 'a list \<Rightarrow> bool" where
  "total_on_list c xs = (\<forall>a\<in>set xs. \<forall>b\<in>set xs. notAfter c a b \<or> notAfter c b a)"

definition trans_on_list :: "('a \<Rightarrow> 'a \<Rightarrow> int) \<Rightarrow> 'a list \<Rightarrow> bool" where
  "trans_on_list c xs =
     (\<forall>a\<in>set xs. \<forall>b\<in>set xs. \<forall>d\<in>set xs. notAfter c a b \<longrightarrow> notAfter c b d \<longrightarrow> notAfter c a d)"

definition never_zero_on_list :: "('a \<Rightarrow> 'a \<Rightarrow> int) \<Rightarrow> 'a list \<Rightarrow> bool" where
  "never_zero_on_list c xs = (\<forall>a\<in>set xs. \<forall>b\<in>set xs. c a b \<noteq> 0)"

definition sort_contract :: "(('a \<Rightarrow> 'a \<Rightarrow> int) \<Rightarrow> 'a list \<Rightarrow> 'a list) \<Rightarrow> bool" where
  "sort_contract srt =
     (\<forall>c xs. mset (srt c xs) = mset xs \<and>
        (never_zero_on_list c xs \<and> total_on_list c xs \<and> trans_on_list c xs \<longrightarrow>
           sorted_wrt (notAfter c) (srt c xs)))"

fun insert_keep :: "('a \<Rightarrow> 'a \<Rightarrow> int) \<Rightarrow> 'a \<Rightarrow> 'a list \<Rightarrow> 'a list" where
  "insert_keep c x [] = [x]"
| "insert_keep c x (y # ys) = (if c y x \<le> 0 then y # insert_keep c x ys else x # y # ys)"

definition sort_keep :: "('a \<Rightarrow> 'a \<Rightarrow> int) \<Rightarrow> 'a list \<Rightarrow> 'a list" where
  "sort_keep c xs = foldl (\<lambda>acc x. insert_keep c x acc) [] xs"

fun insert_flip :: "('a \<Rightarrow> 'a \<Rightarrow> int) \<Rightarrow> 'a \<Rightarrow> 'a list \<Rightarrow> 'a list" where
  "insert_flip c x [] = [x]"
| "insert_flip c x (y # ys) = (if c x y < 0 then x # y # ys else y # insert_flip c x ys)"

definition sort_flip :: "('a \<Rightarrow> 'a \<Rightarrow> int) \<Rightarrow> 'a list \<Rightarrow> 'a list" where
  "sort_flip c xs = foldl (\<lambda>acc x. insert_flip c x acc) [] xs"

section \<open>The derived view\<close>

text \<open>
  \<^verbatim>\<open>filteredData\<close>: \<^verbatim>\<open>allSampleData.filter(...)\<close>, then \<^verbatim>\<open>filtered.sort(...)\<close>, as a
  function of the array it reads (\<open>store\<close>; the page passes \<^verbatim>\<open>allSampleData\<close>) and of the
  six state variables of the page. The in-place update of \<^verbatim>\<open>filtered\<close> is in the
  section on arrays in memory below.
\<close>

definition filteredData ::
  "((entry \<Rightarrow> entry \<Rightarrow> int) \<Rightarrow> entry list \<Rightarrow> entry list) \<Rightarrow> (string \<Rightarrow> int option) \<Rightarrow>
   entry list \<Rightarrow> string \<Rightarrow> string \<Rightarrow> string \<Rightarrow> string \<Rightarrow> sortField \<Rightarrow> string \<Rightarrow> entry list" where
  "filteredData srt dateParse store searchTerm selectedStatus selectedType selectedTag
       sortBy sortOrder =
     (let filtered = filter (passes searchTerm selectedStatus selectedType selectedTag) store
      in srt (comparator dateParse sortBy sortOrder) filtered)"

section \<open>Arrays in memory\<close>

text \<open>
  \<^verbatim>\<open>filter\<close> allocates a new array and \<^verbatim>\<open>sort\<close> rearranges its receiver in place. To
  say which array the sort writes to, arrays live in a heap: a partial map from
  addresses to contents and the next free address. The elements are
  entries by value: the predicate and the comparator only read properties, and
  no statement of \<^verbatim>\<open>filteredData\<close> assigns to one.
\<close>

record heap =
  cells :: "nat \<rightharpoonup> entry list"
  next_addr :: nat

definition heap_ok :: "heap \<Rightarrow> bool" where
  "heap_ok h = (\<forall>a\<in>dom (cells h). a < next_addr h)"

definition alloc :: "entry list \<Rightarrow> heap \<Rightarrow> nat \<times> heap" where
  "alloc xs h = (next_addr h, h\<lparr>cells := (cells h)(next_addr h \<mapsto> xs), next_addr := Suc (next_addr h)\<rparr>)"

text \<open>\<^verbatim>\<open>arr.filter(p)\<close>; \<open>None\<close> when \<open>arr\<close> is not an array of the heap.\<close>

definition array_filter :: "(entry \<Rightarrow> bool) \<Rightarrow> nat \<Rightarrow> heap \<Rightarrow> (nat \<times> heap) option" where
  "array_filter p arr h =
     (case cells h arr of None \<Rightarrow> None | Some xs \<Rightarrow> Some (alloc (filter p xs) h))"

text \<open>\<^verbatim>\<open>arr.sort(c)\<close>: overwrites the contents of \<open>arr\<close> and returns \<open>arr\<close> itself.\<close>

definition array_sort ::
  "((entry \<Rightarrow> entry \<Rightarrow> int) \<Rightarrow> entry list \<Rightarrow> entry list) \<Rightarrow> (entry \<Rightarrow> entry \<Rightarrow> int) \<Rightarrow> nat \<Rightarrow> heap \<Rightarrow>
   (nat \<times> heap) option" where
  "array_sort srt c arr h =
     (case cells h arr of None \<Rightarrow> None
      | Some xs \<Rightarrow> Some (arr, h\<lparr>cells := (cells h)(arr \<mapsto> srt c xs)\<rparr>))"

text \<open>
  \<^verbatim>\<open>filteredData\<close> with its effects: \<open>store\<close> is the address of \<^verbatim>\<open>allSampleData\<close>, the
  result is the address of the array returned and the heap after the call.
\<close>

definition filteredData_heap ::
  "((entry \<Rightarrow> entry \<Rightarrow> int) \<Rightarrow> entry list \<Rightarrow> entry list) \<Rightarrow> (string \<Rightarrow> int option) \<Rightarrow>
   nat \<Rightarrow> string \<Rightarrow> string \<Rightarrow> string \<Rightarrow> string \<Rightarrow> sortField \<Rightarrow> string \<Rightarrow> heap \<Rightarrow>
   (nat \<times> heap) option" where
  "filteredData_heap srt dateParse store searchTerm selectedStatus selectedType selectedTag
       sortBy sortOrder h =
     (case array_filter (passes searchTerm selectedStatus selectedType selectedTag) store h of
        None \<Rightarrow> None
      | Some (filtered, h1) \<Rightarrow> array_sort srt (comparator dateParse sortBy sortOrder) filtered h1)"

section \<open>Dates of the form YYYY-MM-DD\<close>

text \<open>
  A parser for the date-only form of the ECMAScript date-time string format, read
  as midnight UTC: the time value is the day number since 1970-01-01 times the
  milliseconds of a day. Every other string is an invalid date here; an engine
  accepts more forms, which is why the comparator takes its parser as a parameter.
  This one serves for the dates of the fixture and for concrete instances.
\<close>

definition digitValue :: "char \<Rightarrow> int option" where
  "digitValue c =
     (if CHR ''0'' \<le> c \<and> c \<le> CHR ''9'' then Some (int (of_char c) - 48) else None)"

fun digitsValue :: "int \<Rightarrow> string \<Rightarrow> int option" where
  "digitsValue acc [] = Some acc"
| "digitsValue acc (c # cs) =
     (case digitValue c of None \<Rightarrow> None | Some d \<Rightarrow> digitsValue (10 * acc + d) cs)"

definition inLeapYear :: "int \<Rightarrow> bool" where
  "inLeapYear y = (y mod 4 = 0 \<and> (y mod 100 \<noteq> 0 \<or> y mod 400 = 0))"

definition daysInMonth :: "int \<Rightarrow> int \<Rightarrow> int" where
  "daysInMonth y m =
     (if m = 2 then (if inLeapYear y then 29 else 28)
      else if m = 4 \<or> m = 6 \<or> m = 9 \<or> m = 11 then 30 else 31)"

definition dayFromYear :: "int \<Rightarrow> int" where
  "dayFromYear y =
     365 * (y - 1970) + (y - 1969) div 4 - (y - 1901) div 100 + (y - 1601) div 400"

definition daysBeforeMonth :: "int \<Rightarrow> int \<Rightarrow> int" where
  "daysBeforeMonth y m =
     [0, 31, 59, 90, 120, 151, 181, 212, 243, 273, 304, 334] ! nat (m - 1) +
     (if inLeapYear y \<and> 2 < m then 1 else 0)"

definition msPerDay :: int where
  "msPerDay = 86400000"

definition isoDateParse :: "string \<Rightarrow> int option" where
  "isoDateParse s =
     (if length s = 10 \<and> s ! 4 = CHR ''-'' \<and> s ! 7 = CHR ''-'' then
        (case (digitsValue 0 (take 4 s), digitsValue 0 (take 2 (drop 5 s)),
               digitsValue 0 (take 2 (drop 8 s))) of
           (Some y, Some m, Some d) \<Rightarrow>
             if 1 \<le> m \<and> m \<le> 12 \<and> 1 \<le> d \<and> d \<le> daysInMonth y m
             then Some ((dayFromYear y + daysBeforeMonth y m + d - 1) * msPerDay)
             else None
         | _ \<Rightarrow> None)
      else None)"

section \<open>The fixture \<^verbatim>\<open>allSampleData\<close> (src/data/readingData.js)\<close>

definition allSampleData :: "entry list" where
  "allSampleData =
   [\<lparr>entry_id = ''1'', dateAdded = Some ''2025-01-15'', dateRead = Some ''2025-01-20'',
      title = ''The Three Types of Data Drift'', author = ''Jane Doe'', type = ''linkedin_post'',
      tags = [''Machine Learning'', ''Data Quality'', ''MLOps''], status = ''read'',
      rating = Number 4, impact = Number 4\<rparr>,
    \<lparr>entry_id = ''2'', dateAdded = Some ''2025-01-10'', dateRead = Some ''2025-01-25'',
      title = ''Atomic Habits'', author = ''James Clear'', type = ''book'',
      tags = [''Productivity'', ''Self-Improvement'', ''Psychology''], status = ''read'',
      rating = Number 5, impact = Number 5\<rparr>,
    \<lparr>entry_id = ''3'', dateAdded = Some ''2025-02-01'', dateRead = None,
      title = ''The Future of AI in Healthcare'', author = ''Dr. Sarah Johnson'', type = ''video'',
      tags = [''AI'', ''Healthcare'', ''Technology'', ''Future Trends''], status = ''to-read'',
      rating = Null, impact = Null\<rparr>,
    \<lparr>entry_id = ''4'', dateAdded = Some ''2025-01-28'', dateRead = Some ''2025-02-05'',
      title = ''Building Resilient Distributed Systems'', author = ''Martin Fowler'',
      type = ''article'',
      tags = [''Software Architecture'', ''Distributed Systems'', ''Resilience''],
      status = ''read'', rating = Number 4, impact = Number 4\<rparr>,
    \<lparr>entry_id = ''5'', dateAdded = Some ''2025-02-03'', dateRead = Some ''2025-02-08'',
      title = ''The Tim Ferriss Show: Naval Ravikant'', author = ''Tim Ferriss'', type = ''podcast'',
      tags = [''Entrepreneurship'', ''Philosophy'', ''Wealth'', ''Happiness''], status = ''read'',
      rating = Number 5, impact = Number 5\<rparr>,
    \<lparr>entry_id = ''6'', dateAdded = Some ''2025-02-10'', dateRead = Some ''2025-02-15'',
      title = ''The Lean Startup'', author = ''Eric Ries'', type = ''book'',
      tags = [''Entrepreneurship'', ''Product Management'', ''Innovation''], status = ''read'',
      rating = Number 4, impact = Number 4\<rparr>,
    \<lparr>entry_id = ''7'', dateAdded = Some ''2025-02-12'', dateRead = None,
      title = ''Understanding Large Language Models'', author = ''Google AI Blog'',
      type = ''article'',
      tags = [''AI'', ''Natural Language Processing'', ''Deep Learning''], status = ''in-progress'',
      rating = Null, impact = Null\<rparr>,
    \<lparr>entry_id = ''8'', dateAdded = Some ''2025-02-18'', dateRead = Some ''2025-02-20'',
      title = ''The Power of Habit'', author = ''Charles Duhigg'', type = ''book'',
      tags = [''Psychology'', ''Habit Formation'', ''Behavioral Science''], status = ''read'',
      rating = Number 5, impact = Number 5\<rparr>,
    \<lparr>entry_id = ''9'', dateAdded = Some ''2025-02-20'', dateRead = Some ''2025-02-22'',
      title = ''Why We Sleep'', author = ''Matthew Walker'', type = ''book'',
      tags = [''Health'', ''Science'', ''Sleep''], status = ''read'',
      rating = Number 5, impact = Number 5\<rparr>,
    \<lparr>entry_id = ''10'', dateAdded = Some ''2025-02-25'', dateRead = None,
      title = ''Mastering React Hooks'', author = ''Dan Abramov'', type = ''article'',
      tags = [''Programming'', ''React'', ''Frontend Development''], status = ''to-read'',
      rating = Null, impact = Null\<rparr>]"

section \<open>Numbers\<close>

text \<open>
  A JavaScript number is a rational number here, or one of the three values that are
  not: the arithmetic of \<^verbatim>\<open>getReadingStats\<close> is exact in this model, where the
  engine rounds each quotient and product to the nearest double. The sign of zero is
  not kept.
\<close>

datatype jsnum = Num rat | NaN | PosInfinity | NegInfinity

fun js_div :: "jsnum \<Rightarrow> jsnum \<Rightarrow> jsnum" where
  "js_div (Num a) (Num b) =
     (if b = 0 then (if a = 0 then NaN else if 0 < a then PosInfinity else NegInfinity)
      else Num (a / b))"
| "js_div (Num a) PosInfinity = Num 0"
| "js_div (Num a) NegInfinity = Num 0"
| "js_div PosInfinity (Num b) = (if 0 \<le> b then PosInfinity else NegInfinity)"
| "js_div NegInfinity (Num b) = (if 0 \<le> b then NegInfinity else PosInfinity)"
| "js_div x y = NaN"

fun js_mul :: "jsnum \<Rightarrow> jsnum \<Rightarrow> jsnum" where
  "js_mul (Num a) (Num b) = Num (a * b)"
| "js_mul NaN y = NaN"
| "js_mul x NaN = NaN"
| "js_mul (Num a) PosInfinity = (if a = 0 then NaN else if 0 < a then PosInfinity else NegInfinity)"
| "js_mul (Num a) NegInfinity = (if a = 0 then NaN else if 0 < a then NegInfinity else PosInfinity)"
| "js_mul PosInfinity (Num b) = (if b = 0 then NaN else if 0 < b then PosInfinity else NegInfinity)"
| "js_mul NegInfinity (Num b) = (if b = 0 then NaN else if 0 < b then NegInfinity else PosInfinity)"
| "js_mul PosInfinity PosInfinity = PosInfinity"
| "js_mul NegInfinity NegInfinity = PosInfinity"
| "js_mul PosInfinity NegInfinity = NegInfinity"
| "js_mul NegInfinity PosInfinity = NegInfinity"

text \<open>\<^verbatim>\<open>Math.round\<close>: the nearest integer, a half going up.\<close>

fun math_round :: "jsnum \<Rightarrow> jsnum" where
  "math_round (Num a) = Num (of_int \<lfloor>a + 1 / 2\<rfloor>)"
| "math_round x = x"

section \<open>\<^verbatim>\<open>getReadingStats\<close> (src/data/readingData.js)\<close>

text \<open>\<^verbatim>\<open>item.rating || 0\<close>: \<^verbatim>\<open>undefined\<close>, \<^verbatim>\<open>null\<close> and 0 are falsy.\<close>

definition orZero :: "optnum \<Rightarrow> rat" where
  "orZero v =
     (case v of Absent \<Rightarrow> 0 | Null \<Rightarrow> 0 | Number r \<Rightarrow> if r = 0 then 0 else of_int r)"

record stats =
  totalItems :: nat
  readItems :: nat
  inProgress :: nat
  toRead :: nat
  averageRating :: jsnum
  averageImpact :: jsnum

definition getReadingStats :: "entry list \<Rightarrow> stats" where
  "getReadingStats data =
     (let readItems = filter (\<lambda>item. status item = ''read'') data;
          totalItems = length data;
          averageRating =
            js_div (Num (foldl (\<lambda>sum item. sum + orZero (rating item)) 0 readItems))
                   (Num (of_nat (length readItems)))
      in \<lparr>totalItems = totalItems,
          readItems = length readItems,
          inProgress = length (filter (\<lambda>item. status item = ''in-progress'') data),
          toRead = length (filter (\<lambda>item. status item = ''to-read'') data),
          averageRating = js_div (math_round (js_mul averageRating (Num 10))) (Num 10),
          averageImpact =
            js_div (math_round (js_mul
              (js_div (Num (foldl (\<lambda>sum item. sum + orZero (impact item)) 0 readItems))
                      (Num (of_nat (length readItems))))
              (Num 10))) (Num 10)\<rparr>)"

section \<open>\<^verbatim>\<open>getTagFrequency\<close> (src/data/readingData.js)\<close>

text \<open>
  \<^verbatim>\<open>tagCount\<close> is an object literal \<^verbatim>\<open>{}\<close>: its own properties are a map from names to
  values, and a name it does not own is looked up in \<^verbatim>\<open>Object.prototype\<close>. A value
  stored by the function is a number or, after \<^verbatim>\<open>+\<close> met a non-number, a string.
\<close>

datatype jsprop = PNum nat | PStr string

text \<open>
  The text that \<^verbatim>\<open>+ 1\<close> turns an inherited property into: the built-in functions of
  \<^verbatim>\<open>Object.prototype\<close> print as native functions (\<^verbatim>\<open>constructor\<close> is \<^verbatim>\<open>Object\<close>), and
  \<^verbatim>\<open>__proto__\<close> reads as \<^verbatim>\<open>Object.prototype\<close> itself. \<open>None\<close>: the name is not inherited and
  the lookup gives \<^verbatim>\<open>undefined\<close>.
\<close>

definition inheritedText :: "string \<Rightarrow> string option" where
  "inheritedText name =
     (if name = ''constructor'' then Some ''function Object() { [native code] }''
      else if name \<in> set
          [''toString'', ''toLocaleString'', ''valueOf'', ''hasOwnProperty'', ''isPrototypeOf'',
           ''propertyIsEnumerable'', ''__defineGetter__'', ''__defineSetter__'',
           ''__lookupGetter__'', ''__lookupSetter__'']
        then Some (''function '' @ name @ ''() { [native code] }'')
      else if name = ''__proto__'' then Some ''[object Object]''
      else None)"

text \<open>
  \<^verbatim>\<open>tagCount[tag] = (tagCount[tag] || 0) + 1\<close>. A number and a non-empty string are
  truthy, as is every inherited value; \<^verbatim>\<open>+ 1\<close> adds to a number and appends \<^verbatim>\<open>"1"\<close> to
  anything else. The assignment creates an own property, except under the name
  \<^verbatim>\<open>__proto__\<close>, whose setter ignores a value that is not an object.
\<close>

definition bumpTag :: "(string \<rightharpoonup> jsprop) \<Rightarrow> string \<Rightarrow> (string \<rightharpoonup> jsprop)" where
  "bumpTag tagCount tag =
     (let newValue =
        (case tagCount tag of
           Some (PNum n) \<Rightarrow> PNum (n + 1)
         | Some (PStr s) \<Rightarrow> if s = [] then PNum 1 else PStr (s @ ''1'')
         | None \<Rightarrow> (case inheritedText tag of None \<Rightarrow> PNum 1 | Some t \<Rightarrow> PStr (t @ ''1'')))
      in if tag = ''__proto__'' then tagCount else tagCount(tag \<mapsto> newValue))"

definition getTagFrequency :: "entry list \<Rightarrow> (string \<rightharpoonup> jsprop)" where
  "getTagFrequency data =
     foldl (\<lambda>tagCount item. foldl bumpTag tagCount (tags item)) Map.empty data"

section \<open>What the specification calls things\<close>




text \<open>The number of occurrences of a tag over the tag lists of all entries.\<close>

definition occurrences :: "entry list \<Rightarrow> string \<Rightarrow> nat" where
  "occurrences data tag = count_list (concat (map tags data)) tag"

text \<open>"Rounded to one decimal place", for a rational number.\<close>

definition roundOneDecimal :: "rat \<Rightarrow> rat" where
  "roundOneDecimal q = of_int \<lfloor>q * 10 + 1 / 2\<rfloor> / 10"

text \<open>The entry is missing the date it is sorted by: \<^verbatim>\<open>null\<close> or the empty string.\<close>

definition missingDate :: "sortField \<Rightarrow> entry \<Rightarrow> bool" where
  "missingDate sortBy e =
     (case sortBy of
        SortDateAdded \<Rightarrow> dateAdded e = None \<or> dateAdded e = Some []
      | SortDateRead \<Rightarrow> dateRead e = None \<or> dateRead e = Some []
      | _ \<Rightarrow> False)"

text \<open>The entry with the sentinel date written into a missing date.\<close>

definition withSentinel :: "sortField \<Rightarrow> entry \<Rightarrow> entry" where
  "withSentinel sortBy e =
     (case sortBy of
        SortDateAdded \<Rightarrow> (if missingDate sortBy e then e\<lparr>dateAdded := Some ''1900-01-01''\<rparr> else e)
      | SortDateRead \<Rightarrow> (if missingDate sortBy e then e\<lparr>dateRead := Some ''1900-01-01''\<rparr> else e)
      | _ \<Rightarrow> e)"

text \<open>
  "The sentinel is earlier than every real date in the store": the sentinel and
  every date present in the chosen field parse, the sentinel to the earlier time.
\<close>

definition sentinelEarliest :: "(string \<Rightarrow> int option) \<Rightarrow> sortField \<Rightarrow> entry list \<Rightarrow> bool" where
  "sentinelEarliest dateParse sortBy store =
     (case dateParse ''1900-01-01'' of
        None \<Rightarrow> False
      | Some t0 \<Rightarrow>
          list_all (\<lambda>e. missingDate sortBy e \<or>
             (case toNumber (sortValue dateParse sortBy e) of None \<Rightarrow> False | Some t \<Rightarrow> t0 < t)) store)"

text \<open>Two entries have the same value in the chosen sort field.\<close>

definition sameField :: "sortField \<Rightarrow> entry \<Rightarrow> entry \<Rightarrow> bool" where
  "sameField sortBy a b =
     (case sortBy of
        SortDateAdded \<Rightarrow> dateAdded a = dateAdded b
      | SortDateRead \<Rightarrow> dateRead a = dateRead b
      | SortTitle \<Rightarrow> title a = title b
      | SortRating \<Rightarrow> rating a = rating b)"

text \<open>
  The key the comparison works on: the string itself, or the number the value
  converts to (\<open>None\<close> is \<^verbatim>\<open>NaN\<close>: the time value of an invalid date, and what a rating
  property that is not there converts to).
\<close>

definition comparedKey :: "(string \<Rightarrow> int option) \<Rightarrow> sortField \<Rightarrow> entry \<Rightarrow> string + int option" where
  "comparedKey dateParse sortBy e =
     (case sortValue dateParse sortBy e of JStr s \<Rightarrow> Inl s | v \<Rightarrow> Inr (toNumber v))"

section \<open>Entries for concrete instances\<close>

definition sampleEntry :: "string \<Rightarrow> string list \<Rightarrow> string \<Rightarrow> optnum \<Rightarrow> entry" where
  "sampleEntry t tgs st r =
     \<lparr>entry_id = t, dateAdded = Some ''2025-03-01'', dateRead = None, title = t,
      author = ''A. Writer'', type = ''book'', tags = tgs, status = st, rating = r, impact = r\<rparr>"

text \<open>Ten entries, six of them read, with the ratings 4, 5, 4, 5, 5, 5.\<close>

definition tenEntries :: "entry list" where
  "tenEntries =
     [sampleEntry ''a'' [] ''read'' (Number 4), sampleEntry ''b'' [] ''to-read'' Null,
      sampleEntry ''c'' [] ''read'' (Number 5), sampleEntry ''d'' [] ''read'' (Number 4),
      sampleEntry ''e'' [] ''in-progress'' Null, sampleEntry ''f'' [] ''read'' (Number 5),
      sampleEntry ''g'' [] ''read'' (Number 5), sampleEntry ''h'' [] ''to-read'' Null,
      sampleEntry ''i'' [] ''read'' (Number 5), sampleEntry ''j'' [] ''to-read'' Null]"

section \<open>Properties of the sort contract\<close>

lemma set_insert_keep: "set (insert_keep c x ys) = insert x (set ys)"
  by (induction ys) auto

lemma mset_insert_keep: "mset (insert_keep c x ys) = add_mset x (mset ys)"
  by (induction ys) auto

lemma mset_foldl_insert_keep:
  "mset (foldl (\<lambda>acc x. insert_keep c x acc) acc xs) = mset acc + mset xs"
  by (induction xs arbitrary: acc) (auto simp: mset_insert_keep)

lemma set_insert_flip: "set (insert_flip c x ys) = insert x (set ys)"
  by (induction ys) auto

lemma mset_insert_flip: "mset (insert_flip c x ys) = add_mset x (mset ys)"
  by (induction ys) auto

lemma mset_foldl_insert_flip:
  "mset (foldl (\<lambda>acc x. insert_flip c x acc) acc xs) = mset acc + mset xs"
  by (induction xs arbitrary: acc) (auto simp: mset_insert_flip)

lemma total_on_list_mono: "set ys \<subseteq> set xs \<Longrightarrow> total_on_list c xs \<Longrightarrow> total_on_list c ys"
  unfolding total_on_list_def by blast

lemma trans_on_list_mono: "set ys \<subseteq> set xs \<Longrightarrow> trans_on_list c xs \<Longrightarrow> trans_on_list c ys"
  unfolding trans_on_list_def by (meson subsetD)

lemma total_on_listD:
  "total_on_list c xs \<Longrightarrow> a \<in> set xs \<Longrightarrow> b \<in> set xs \<Longrightarrow> \<not> notAfter c a b \<Longrightarrow> notAfter c b a"
  unfolding total_on_list_def by blast

lemma trans_on_listD:
  "trans_on_list c xs \<Longrightarrow> a \<in> set xs \<Longrightarrow> b \<in> set xs \<Longrightarrow> d \<in> set xs \<Longrightarrow>
   notAfter c a b \<Longrightarrow> notAfter c b d \<Longrightarrow> notAfter c a d"
  unfolding trans_on_list_def by blast

lemma sorted_insert_keep:
  assumes "total_on_list c (x # ys)" "trans_on_list c (x # ys)" "sorted_wrt (notAfter c) ys"
  shows "sorted_wrt (notAfter c) (insert_keep c x ys)"
  using assms
proof (induction ys)
  case Nil
  then show ?case by simp
next
  case (Cons y ys)
  have sub: "set (x # ys) \<subseteq> set (x # y # ys)" by auto
  have tot: "total_on_list c (x # ys)"
    by (rule total_on_list_mono[OF sub Cons.prems(1)])
  have tr: "trans_on_list c (x # ys)"
    by (rule trans_on_list_mono[OF sub Cons.prems(2)])
  have srt: "sorted_wrt (notAfter c) ys" and yle: "\<forall>z\<in>set ys. notAfter c y z"
    using Cons.prems(3) by simp_all
  have ih: "sorted_wrt (notAfter c) (insert_keep c x ys)"
    by (rule Cons.IH[OF tot tr srt])
  show ?case
  proof (cases "c y x \<le> 0")
    case True
    then have "notAfter c y x" by (simp add: notAfter_def)
    with yle ih True show ?thesis
      by (simp add: set_insert_keep)
  next
    case False
    then have "\<not> notAfter c y x" by (simp add: notAfter_def)
    then have xy: "notAfter c x y"
      using total_on_listD[OF Cons.prems(1), of y x] by simp
    have "\<forall>z\<in>set ys. notAfter c x z"
    proof
      fix z assume z: "z \<in> set ys"
      then have "notAfter c y z" using yle by blast
      with xy z show "notAfter c x z"
        using trans_on_listD[OF Cons.prems(2), of x y z] by simp
    qed
    with xy False srt yle show ?thesis by simp
  qed
qed

lemma sorted_foldl_insert_keep:
  assumes "total_on_list c (acc @ xs)" "trans_on_list c (acc @ xs)" "sorted_wrt (notAfter c) acc"
  shows "sorted_wrt (notAfter c) (foldl (\<lambda>acc x. insert_keep c x acc) acc xs)"
  using assms
proof (induction xs arbitrary: acc)
  case Nil
  then show ?case by simp
next
  case (Cons x xs)
  have sub1: "set (x # acc) \<subseteq> set (acc @ x # xs)" by auto
  have s: "sorted_wrt (notAfter c) (insert_keep c x acc)"
    by (rule sorted_insert_keep[OF total_on_list_mono[OF sub1 Cons.prems(1)]
          trans_on_list_mono[OF sub1 Cons.prems(2)] Cons.prems(3)])
  have sub2: "set (insert_keep c x acc @ xs) \<subseteq> set (acc @ x # xs)"
    by (auto simp: set_insert_keep)
  show ?case
    using Cons.IH[OF total_on_list_mono[OF sub2 Cons.prems(1)]
        trans_on_list_mono[OF sub2 Cons.prems(2)] s] by simp
qed

lemma sort_keep_contract: "sort_contract sort_keep"
  unfolding sort_contract_def
proof (intro allI conjI impI)
  fix c :: "'a \<Rightarrow> 'a \<Rightarrow> int" and xs
  show "mset (sort_keep c xs) = mset xs"
    by (simp add: sort_keep_def mset_foldl_insert_keep)
  assume "never_zero_on_list c xs \<and> total_on_list c xs \<and> trans_on_list c xs"
  then show "sorted_wrt (notAfter c) (sort_keep c xs)"
    unfolding sort_keep_def using sorted_foldl_insert_keep[of c "[]" xs] by simp
qed

lemma never_zero_on_list_mono:
  "set ys \<subseteq> set xs \<Longrightarrow> never_zero_on_list c xs \<Longrightarrow> never_zero_on_list c ys"
  unfolding never_zero_on_list_def by blast

lemma never_zero_on_listD:
  "never_zero_on_list c xs \<Longrightarrow> a \<in> set xs \<Longrightarrow> b \<in> set xs \<Longrightarrow> c a b \<noteq> 0"
  unfolding never_zero_on_list_def by blast

lemma sorted_insert_flip:
  assumes "never_zero_on_list c (x # ys)" "total_on_list c (x # ys)" "trans_on_list c (x # ys)"
    "sorted_wrt (notAfter c) ys"
  shows "sorted_wrt (notAfter c) (insert_flip c x ys)"
  using assms
proof (induction ys)
  case Nil
  then show ?case by simp
next
  case (Cons y ys)
  have sub: "set (x # ys) \<subseteq> set (x # y # ys)" by auto
  have nz: "never_zero_on_list c (x # ys)"
    by (rule never_zero_on_list_mono[OF sub Cons.prems(1)])
  have tot: "total_on_list c (x # ys)"
    by (rule total_on_list_mono[OF sub Cons.prems(2)])
  have tr: "trans_on_list c (x # ys)"
    by (rule trans_on_list_mono[OF sub Cons.prems(3)])
  have srt: "sorted_wrt (notAfter c) ys" and yle: "\<forall>z\<in>set ys. notAfter c y z"
    using Cons.prems(4) by simp_all
  have ih: "sorted_wrt (notAfter c) (insert_flip c x ys)"
    by (rule Cons.IH[OF nz tot tr srt])
  show ?case
  proof (cases "c x y < 0")
    case True
    then have xy: "notAfter c x y" by (simp add: notAfter_def)
    have "\<forall>z\<in>set ys. notAfter c x z"
    proof
      fix z assume z: "z \<in> set ys"
      then have "notAfter c y z" using yle by blast
      with xy z show "notAfter c x z"
        using trans_on_listD[OF Cons.prems(3), of x y z] by simp
    qed
    with xy True srt yle show ?thesis by simp
  next
    case False
    have "c x y \<noteq> 0"
      using never_zero_on_listD[OF Cons.prems(1), of x y] by simp
    with False have "\<not> notAfter c x y" by (simp add: notAfter_def)
    then have "notAfter c y x"
      using total_on_listD[OF Cons.prems(2), of x y] by simp
    with yle ih False show ?thesis
      by (simp add: set_insert_flip)
  qed
qed

lemma sorted_foldl_insert_flip:
  assumes "never_zero_on_list c (acc @ xs)" "total_on_list c (acc @ xs)"
    "trans_on_list c (acc @ xs)" "sorted_wrt (notAfter c) acc"
  shows "sorted_wrt (notAfter c) (foldl (\<lambda>acc x. insert_flip c x acc) acc xs)"
  using assms
proof (induction xs arbitrary: acc)
  case Nil
  then show ?case by simp
next
  case (Cons x xs)
  have sub1: "set (x # acc) \<subseteq> set (acc @ x # xs)" by auto
  have s: "sorted_wrt (notAfter c) (insert_flip c x acc)"
    by (rule sorted_insert_flip[OF never_zero_on_list_mono[OF sub1 Cons.prems(1)]
          total_on_list_mono[OF sub1 Cons.prems(2)]
          trans_on_list_mono[OF sub1 Cons.prems(3)] Cons.prems(4)])
  have sub2: "set (insert_flip c x acc @ xs) \<subseteq> set (acc @ x # xs)"
    by (auto simp: set_insert_flip)
  show ?case
    using Cons.IH[OF never_zero_on_list_mono[OF sub2 Cons.prems(1)]
        total_on_list_mono[OF sub2 Cons.prems(2)]
        trans_on_list_mono[OF sub2 Cons.prems(3)] s] by simp
qed

lemma sort_flip_contract: "sort_contract sort_flip"
  unfolding sort_contract_def
proof (intro allI conjI impI)
  fix c :: "'a \<Rightarrow> 'a \<Rightarrow> int" and xs
  show "mset (sort_flip c xs) = mset xs"
    by (simp add: sort_flip_def mset_foldl_insert_flip)
  assume "never_zero_on_list c xs \<and> total_on_list c xs \<and> trans_on_list c xs"
  then show "sorted_wrt (notAfter c) (sort_flip c xs)"
    unfolding sort_flip_def using sorted_foldl_insert_flip[of c "[]" xs] by simp
qed

section \<open>The filter\<close>



lemma includesStr_empty: "includesStr s []"
  by (cases s) auto












lemma matchesSearch_empty: "matchesSearch [] item"
  by (simp add: matchesSearch_def toLowerCase_def includesStr_empty)

lemma set_sort_contract: "sort_contract srt \<Longrightarrow> set (srt c xs) = set xs"
  unfolding sort_contract_def by (metis set_mset_mset)

lemma mset_filteredData:
  "sort_contract srt \<Longrightarrow>
   mset (filteredData srt dateParse store searchTerm selectedStatus selectedType selectedTag
           sortBy sortOrder) =
   mset (filter (passes searchTerm selectedStatus selectedType selectedTag) store)"
  unfolding sort_contract_def filteredData_def by simp



text \<open>
  Claim C7. With the search text empty and the status and type filters at "all", the
  tag filter "AI" returns exactly the entries of the store that have the tag "AI",
  compared as a whole string and with its letter case: an entry whose only tag is
  "ai" or "AI Ethics" is not returned. The free-text search is different: the search
  text "AI" (with no tag filter) does return such an entry.
\<close>

theorem tag_filter_exact:
  assumes "sort_contract srt"
  shows "mset (filteredData srt dateParse store [] ''all'' ''all'' ''AI'' sortBy sortOrder) =
           mset (filter (\<lambda>e. ''AI'' \<in> set (tags e)) store) \<and>
         (tags e = [''ai''] \<or> tags e = [''AI Ethics''] \<longrightarrow>
            e \<notin> set (filteredData srt dateParse store [] ''all'' ''all'' ''AI'' sortBy sortOrder)) \<and>
         (e \<in> set store \<and> (tags e = [''ai''] \<or> tags e = [''AI Ethics'']) \<longrightarrow>
            e \<in> set (filteredData srt dateParse store ''AI'' ''all'' ''all'' ''all'' sortBy sortOrder))"
proof (intro conjI impI)
  have p: "passes [] ''all'' ''all'' ''AI'' = (\<lambda>e. ''AI'' \<in> set (tags e))"
    by (rule ext) (simp add: passes_def matchesSearch_empty matchesStatus_def matchesType_def
        matchesTag_def)
  show "mset (filteredData srt dateParse store [] ''all'' ''all'' ''AI'' sortBy sortOrder) =
           mset (filter (\<lambda>e. ''AI'' \<in> set (tags e)) store)"
    using mset_filteredData[OF assms] p by simp
  then have "set (filteredData srt dateParse store [] ''all'' ''all'' ''AI'' sortBy sortOrder) =
      set (filter (\<lambda>e. ''AI'' \<in> set (tags e)) store)"
    by (rule mset_eq_setD)
  then have s: "set (filteredData srt dateParse store [] ''all'' ''all'' ''AI'' sortBy sortOrder) =
      {e \<in> set store. ''AI'' \<in> set (tags e)}"
    by simp
  show "e \<notin> set (filteredData srt dateParse store [] ''all'' ''all'' ''AI'' sortBy sortOrder)"
    if "tags e = [''ai''] \<or> tags e = [''AI Ethics'']"
    using that s by auto
  have lo: "toLowerCase ''AI'' = ''ai''" "toLowerCase ''ai'' = ''ai''"
    "toLowerCase ''AI Ethics'' = ''ai ethics''"
    by code_simp+
  show "e \<in> set (filteredData srt dateParse store ''AI'' ''all'' ''all'' ''all'' sortBy sortOrder)"
    if h: "e \<in> set store \<and> (tags e = [''ai''] \<or> tags e = [''AI Ethics''])"
  proof -
    have "matchesSearch ''AI'' e"
      using h lo by (auto simp: matchesSearch_def)
    then have "passes ''AI'' ''all'' ''all'' ''all'' e"
      by (simp add: passes_def matchesStatus_def matchesType_def matchesTag_def)
    with h show ?thesis
      using set_sort_contract[OF assms] by (simp add: filteredData_def)
  qed
qed

theorem tag_filter_exact_witness:
  "filteredData sort_keep isoDateParse
     [sampleEntry ''One'' [''ai''] ''read'' Null,
      sampleEntry ''Two'' [''Health'', ''AI''] ''read'' Null,
      sampleEntry ''Three'' [''AI Ethics''] ''read'' Null] [] ''all'' ''all'' ''AI'' SortTitle ''asc''
   = [sampleEntry ''Two'' [''Health'', ''AI''] ''read'' Null]"
proof -
  let ?store = "[sampleEntry ''One'' [''ai''] ''read'' Null,
      sampleEntry ''Two'' [''Health'', ''AI''] ''read'' Null,
      sampleEntry ''Three'' [''AI Ethics''] ''read'' Null]"
  have "mset (filteredData sort_keep isoDateParse ?store [] ''all'' ''all'' ''AI'' SortTitle ''asc'') =
           mset (filter (\<lambda>e. ''AI'' \<in> set (tags e)) ?store)"
    using tag_filter_exact [OF sort_keep_contract] by blast
  then show ?thesis by (simp add: sampleEntry_def)
qed

section \<open>Reading statistics\<close>

lemma foldl_orZero_sum:
  "foldl (\<lambda>sum item. sum + orZero (f item)) acc xs = acc + sum_list (map (\<lambda>item. orZero (f item)) xs)"
  by (induction xs arbitrary: acc) simp_all

lemma averageRating_eq:
  "averageRating (getReadingStats data) =
     js_div (math_round (js_mul
       (js_div (Num (sum_list (map (\<lambda>item. orZero (rating item)) (filter (\<lambda>item. status item = ''read'') data))))
               (Num (of_nat (length (filter (\<lambda>item. status item = ''read'') data)))))
       (Num 10))) (Num 10)"
  by (simp add: getReadingStats_def Let_def foldl_orZero_sum)

lemma averageImpact_eq:
  "averageImpact (getReadingStats data) =
     js_div (math_round (js_mul
       (js_div (Num (sum_list (map (\<lambda>item. orZero (impact item)) (filter (\<lambda>item. status item = ''read'') data))))
               (Num (of_nat (length (filter (\<lambda>item. status item = ''read'') data)))))
       (Num 10))) (Num 10)"
  by (simp add: getReadingStats_def Let_def foldl_orZero_sum)

text \<open>
  Without an entry of status "read" (the empty store included), both averages are
  \<^verbatim>\<open>NaN\<close>, the value of 0 / 0: \<^verbatim>\<open>getReadingStats\<close> divides by \<^verbatim>\<open>readItems.length\<close> with no
  test for 0. Nothing is raised; the count of read entries is 0 and the total is the
  number of entries.
\<close>

lemma getReadingStats_no_read:
  assumes "filter (\<lambda>item. status item = ''read'') data = []"
  shows "averageRating (getReadingStats data) = NaN \<and>
         averageImpact (getReadingStats data) = NaN \<and>
         readItems (getReadingStats data) = 0 \<and>
         totalItems (getReadingStats data) = length data"
  using assms by (simp add: averageRating_eq averageImpact_eq) (simp add: getReadingStats_def Let_def)

text \<open>
  Claim C2, at the input where the code departs from it: the empty store. It has no
  entry of status "read" and the total returned is 0, as the claim says; but the
  average rating returned is \<^verbatim>\<open>NaN\<close> and not the number 0, where the claim asks for a
  stand-in instead of \<^verbatim>\<open>NaN\<close>. The statistics of the analytics panel (\<^verbatim>\<open>stats\<close> in
  SimpleAnalytics) compute the same average behind the test
  \<^verbatim>\<open>readItems.length > 0 ? ... : 0\<close>, which \<^verbatim>\<open>getReadingStats\<close> lacks.
\<close>

theorem getReadingStats_empty_NaN:
  "filter (\<lambda>item. status item = ''read'') [] = [] \<and>
   averageRating (getReadingStats []) = NaN \<and>
   averageRating (getReadingStats []) \<noteq> Num 0 \<and>
   averageImpact (getReadingStats []) = NaN \<and>
   totalItems (getReadingStats []) = 0"
  by (simp add: averageRating_eq averageImpact_eq) (simp add: getReadingStats_def)

lemma sum_list_orZero_mset:
  "sum_list (map (\<lambda>item. orZero (f item)) xs) = sum_mset (image_mset orZero (mset (map f xs)))"
  by (induction xs) simp_all

text \<open>
  Claim C4. For every store of 10 entries whose entries of status "read" carry
  the ratings 4, 5, 4, 5, 5, 5 (six entries, in any order),
  \<^verbatim>\<open>getReadingStats\<close> returns the read count 6 and the average rating 4.7.
\<close>

theorem stats_six_read:
  assumes "length data = 10"
    and "mset (map rating (filter (\<lambda>item. status item = ''read'') data)) =
           {#Number 4, Number 5, Number 4, Number 5, Number 5, Number 5#}"
  shows "readItems (getReadingStats data) = 6 \<and>
         averageRating (getReadingStats data) = Num (47 / 10) \<and>
         totalItems (getReadingStats data) = 10"
proof -
  let ?rd = "filter (\<lambda>item. status item = ''read'') data"
  have "length (map rating ?rd) = size (mset (map rating ?rd))"
    by (simp only: size_mset)
  also have "\<dots> = 6"
    unfolding assms(2) by simp
  finally have len: "length ?rd = 6" by simp
  have sum: "sum_list (map (\<lambda>item. orZero (rating item)) ?rd) = 28"
    unfolding sum_list_orZero_mset assms(2) by (simp add: orZero_def)
  have "js_div (math_round (js_mul (js_div (Num 28) (Num (of_nat 6))) (Num 10))) (Num 10) =
      Num (47 / 10)"
    by code_simp
  then have avg: "averageRating (getReadingStats data) = Num (47 / 10)"
    unfolding averageRating_eq sum len .
  have "readItems (getReadingStats data) = length ?rd"
    and "totalItems (getReadingStats data) = length data"
    by (simp_all add: getReadingStats_def Let_def)
  with len avg assms(1) show ?thesis by simp
qed


theorem stats_six_read_witness:
  "length tenEntries = 10 \<and>
   readItems (getReadingStats tenEntries) = 6 \<and>
   averageRating (getReadingStats tenEntries) = Num (47 / 10)"
proof -
  have l: "length tenEntries = 10"
    by (simp add: tenEntries_def)
  have r: "mset (map rating (filter (\<lambda>item. status item = ''read'') tenEntries)) =
           {#Number 4, Number 5, Number 4, Number 5, Number 5, Number 5#}"
    by (simp add: tenEntries_def sampleEntry_def)
  show ?thesis using l stats_six_read [OF l r] by simp
qed

lemma orZero_eq: "orZero v = (case v of Absent \<Rightarrow> 0 | Null \<Rightarrow> 0 | Number r \<Rightarrow> of_int r)"
  by (simp add: orZero_def split: optnum.splits)

lemma round_one_decimal_js:
  "b \<noteq> 0 \<Longrightarrow>
   js_div (math_round (js_mul (js_div (Num a) (Num b)) (Num 10))) (Num 10) =
   Num (roundOneDecimal (a / b))"
  by (simp add: roundOneDecimal_def)

text \<open>
  Claim C9. For every store with at least one entry of status "read", the average
  rating is the sum over the read entries of the rating, a rating that is \<^verbatim>\<open>null\<close> or not
  there counting as 0, divided by the number of read entries and rounded to one decimal place; the
  same for the average impact. An unrated read entry is in the denominator: it lowers
  the average.
\<close>

theorem average_counts_unrated_as_zero:
  assumes "filter (\<lambda>item. status item = ''read'') data \<noteq> []"
  shows "averageRating (getReadingStats data) =
           Num (roundOneDecimal
             (sum_list (map (\<lambda>item. case rating item of Absent \<Rightarrow> 0 | Null \<Rightarrow> 0 | Number r \<Rightarrow> of_int r)
                 (filter (\<lambda>item. status item = ''read'') data)) /
              of_nat (length (filter (\<lambda>item. status item = ''read'') data)))) \<and>
         averageImpact (getReadingStats data) =
           Num (roundOneDecimal
             (sum_list (map (\<lambda>item. case impact item of Absent \<Rightarrow> 0 | Null \<Rightarrow> 0 | Number r \<Rightarrow> of_int r)
                 (filter (\<lambda>item. status item = ''read'') data)) /
              of_nat (length (filter (\<lambda>item. status item = ''read'') data))))"
proof -
  have "(of_nat (length (filter (\<lambda>item. status item = ''read'') data)) :: rat) \<noteq> 0"
    using assms by simp
  then show ?thesis
    unfolding averageRating_eq averageImpact_eq orZero_eq
    by (simp only: round_one_decimal_js simp_thms)
qed

theorem average_counts_unrated_as_zero_witness:
  "averageRating (getReadingStats
     [sampleEntry ''a'' [] ''read'' (Number 4), sampleEntry ''b'' [] ''read'' Null]) = Num 2 \<and>
   averageRating (getReadingStats [sampleEntry ''a'' [] ''read'' (Number 4)]) = Num 4"
proof -
  have n: "filter (\<lambda>item. status item = ''read'')
      [sampleEntry ''a'' [] ''read'' (Number 4), sampleEntry ''b'' [] ''read'' Null] \<noteq> []"
    "filter (\<lambda>item. status item = ''read'') [sampleEntry ''a'' [] ''read'' (Number 4)] \<noteq> []"
    by (simp_all add: sampleEntry_def)
  have r: "roundOneDecimal (4 / 2) = 2" "roundOneDecimal (4 / 1) = 4"
    by code_simp+
  show ?thesis
    using average_counts_unrated_as_zero [OF n(1)] average_counts_unrated_as_zero [OF n(2)] r
    by (simp add: sampleEntry_def)
qed

section \<open>Tag frequency\<close>

lemma inheritedText_proto: "inheritedText t = None \<Longrightarrow> t \<noteq> ''__proto__''"
  by (auto simp: inheritedText_def)

lemma bumpTag_other: "x \<noteq> t \<Longrightarrow> bumpTag m x t = m t"
  by (simp add: bumpTag_def Let_def)

lemma bumpTag_same_None:
  "inheritedText t = None \<Longrightarrow> m t = None \<Longrightarrow> bumpTag m t t = Some (PNum 1)"
  using inheritedText_proto[of t] by (simp add: bumpTag_def Let_def)

lemma bumpTag_same_Num:
  "inheritedText t = None \<Longrightarrow> m t = Some (PNum n) \<Longrightarrow> bumpTag m t t = Some (PNum (Suc n))"
  using inheritedText_proto[of t] by (simp add: bumpTag_def Let_def)

lemma foldl_bumpTag_Num:
  assumes "inheritedText t = None" "m t = Some (PNum n)"
  shows "foldl bumpTag m ts t = Some (PNum (n + count_list ts t))"
  using assms(2)
proof (induction ts arbitrary: m n)
  case Nil
  then show ?case by simp
next
  case (Cons x ts)
  show ?case
  proof (cases "x = t")
    case True
    have "bumpTag m x t = Some (PNum (Suc n))"
      using bumpTag_same_Num[where m=m and t=t, OF assms(1) Cons.prems] True by simp
    from Cons.IH[of "bumpTag m x", OF this] True show ?thesis by simp
  next
    case False
    have "bumpTag m x t = Some (PNum n)"
      using bumpTag_other[OF False, of m] Cons.prems by simp
    from Cons.IH[of "bumpTag m x", OF this] False show ?thesis by simp
  qed
qed

lemma foldl_bumpTag_None:
  assumes "inheritedText t = None" "m t = None"
  shows "foldl bumpTag m ts t =
           (if count_list ts t = 0 then None else Some (PNum (count_list ts t)))"
  using assms(2)
proof (induction ts arbitrary: m)
  case Nil
  then show ?case by simp
next
  case (Cons x ts)
  show ?case
  proof (cases "x = t")
    case True
    have "bumpTag m x t = Some (PNum 1)"
      using bumpTag_same_None[where m=m and t=t, OF assms(1) Cons.prems] True by simp
    from foldl_bumpTag_Num[where m="bumpTag m x", OF assms(1) this, of ts] True
    show ?thesis by simp
  next
    case False
    have "bumpTag m x t = None"
      using bumpTag_other[OF False, of m] Cons.prems by simp
    from Cons.IH[of "bumpTag m x", OF this] False show ?thesis by simp
  qed
qed

lemma foldl_bumpTag_count:
  assumes "inheritedText t = None" "m t = None \<or> (\<exists>n. m t = Some (PNum (Suc n)))"
  shows "foldl bumpTag m ts t =
     (let k = (case m t of Some (PNum n) \<Rightarrow> n | _ \<Rightarrow> 0) + count_list ts t
      in if k = 0 then None else Some (PNum k))"
  using assms(2)
proof
  assume "m t = None"
  then show ?thesis using foldl_bumpTag_None[where m=m, OF assms(1)] by (simp add: Let_def)
next
  assume "\<exists>n. m t = Some (PNum (Suc n))"
  then obtain n where n: "m t = Some (PNum (Suc n))" by blast
  from foldl_bumpTag_Num[where m=m, OF assms(1) n] n show ?thesis
    by (simp add: Let_def)
qed

lemma getTagFrequency_fold_count:
  assumes "inheritedText t = None" "m t = None \<or> (\<exists>n. m t = Some (PNum (Suc n)))"
  shows "foldl (\<lambda>tagCount item. foldl bumpTag tagCount (tags item)) m data t =
     (let k = (case m t of Some (PNum n) \<Rightarrow> n | _ \<Rightarrow> 0) + count_list (concat (map tags data)) t
      in if k = 0 then None else Some (PNum k))"
  using assms(2)
proof (induction data arbitrary: m)
  case Nil
  then show ?case by (auto simp: Let_def)
next
  case (Cons e data)
  let ?m1 = "foldl bumpTag m (tags e)"
  have m1: "?m1 t = (let k = (case m t of Some (PNum n) \<Rightarrow> n | _ \<Rightarrow> 0) + count_list (tags e) t
      in if k = 0 then None else Some (PNum k))"
    by (rule foldl_bumpTag_count[where m=m, OF assms(1) Cons.prems])
  then have ok: "?m1 t = None \<or> (\<exists>n. ?m1 t = Some (PNum (Suc n)))"
    by (auto simp: Let_def gr0_conv_Suc)
  have k: "(case ?m1 t of Some (PNum n) \<Rightarrow> n | _ \<Rightarrow> 0) =
      (case m t of Some (PNum n) \<Rightarrow> n | _ \<Rightarrow> 0) + count_list (tags e) t"
    using m1 by (auto simp: Let_def)
  show ?case
    using Cons.IH[of ?m1, OF ok] by (simp add: k Let_def add.assoc)
qed

text \<open>
  For a tag that is not the name of a property of \<^verbatim>\<open>Object.prototype\<close>, the value
  recorded is the number of its occurrences over all entries, whatever their status
  and once per occurrence; a tag that does not occur has no property.
\<close>

lemma tag_frequency_counts:
  assumes "inheritedText t = None"
  shows "getTagFrequency data t =
           (if occurrences data t = 0 then None else Some (PNum (occurrences data t)))"
  using getTagFrequency_fold_count[where m=Map.empty, OF assms, of data]
  by (simp add: getTagFrequency_def occurrences_def Let_def)

lemma tag_frequency_example:
  "getTagFrequency [sampleEntry ''x'' [''A'', ''B''] ''read'' Null,
                    sampleEntry ''y'' [''A''] ''to-read'' Null] =
   [''A'' \<mapsto> PNum 2, ''B'' \<mapsto> PNum 1]"
  by (rule ext) (simp add: getTagFrequency_def sampleEntry_def bumpTag_def inheritedText_def)

text \<open>
  Claim C5, at an input where the code departs from it: one entry whose only tag
  is "constructor". The tag occurs once, and what \<^verbatim>\<open>getTagFrequency\<close> records under
  it is not the number 1 but a string: on the fresh object the lookup
  \<^verbatim>\<open>tagCount[tag]\<close> finds the inherited \<^verbatim>\<open>Object\<close> function, which is truthy, and
  \<^verbatim>\<open>+ 1\<close> appends to its text.
\<close>

theorem tag_frequency_inherited_name:
  "getTagFrequency [sampleEntry ''x'' [''constructor''] ''read'' Null] ''constructor'' =
     Some (PStr ''function Object() { [native code] }1'') \<and>
   occurrences [sampleEntry ''x'' [''constructor''] ''read'' Null] ''constructor'' = 1"
  by (simp add: getTagFrequency_def sampleEntry_def bumpTag_def inheritedText_def occurrences_def)

section \<open>The store in memory\<close>

lemma filteredData_heap_eq:
  assumes "cells h store = Some xs"
  shows "filteredData_heap srt dateParse store searchTerm selectedStatus selectedType selectedTag
           sortBy sortOrder h =
         Some (next_addr h,
               h\<lparr>cells := (cells h)(next_addr h \<mapsto>
                      filteredData srt dateParse xs searchTerm selectedStatus selectedType
                        selectedTag sortBy sortOrder),
                 next_addr := Suc (next_addr h)\<rparr>)"
  using assms
  by (simp add: filteredData_heap_def array_filter_def alloc_def array_sort_def filteredData_def)

text \<open>
  Claim C8. For every filter and sort setting, and whatever the sort does to its
  receiver, computing the view has no effect on the store: the call returns an array
  that did not exist before (so it is not the store), the store holds the same
  entries in the same order afterwards, no other array of the heap has changed, and
  the new array holds the view. A second call returns another new array and leaves
  both the store and the first result as they were.
\<close>

theorem filteredData_leaves_store:
  assumes "heap_ok h" and "cells h store = Some xs"
  shows "\<exists>r h'.
           filteredData_heap srt dateParse store searchTerm selectedStatus selectedType selectedTag
             sortBy sortOrder h = Some (r, h') \<and>
           r \<notin> dom (cells h) \<and> r \<noteq> store \<and>
           cells h' store = Some xs \<and>
           (\<forall>a\<in>dom (cells h). cells h' a = cells h a) \<and>
           cells h' r = Some (filteredData srt dateParse xs searchTerm selectedStatus selectedType
                                selectedTag sortBy sortOrder) \<and>
           heap_ok h' \<and>
           (\<exists>r2 h2.
              filteredData_heap srt dateParse store searchTerm selectedStatus selectedType
                selectedTag sortBy sortOrder h' = Some (r2, h2) \<and>
              r2 \<noteq> r \<and> r2 \<noteq> store \<and> cells h2 store = Some xs \<and> cells h2 r = cells h' r)"
proof -
  let ?v = "filteredData srt dateParse xs searchTerm selectedStatus selectedType selectedTag
              sortBy sortOrder"
  let ?r = "next_addr h"
  let ?h' = "h\<lparr>cells := (cells h)(?r \<mapsto> ?v), next_addr := Suc ?r\<rparr>"
  let ?h2 = "?h'\<lparr>cells := (cells ?h')(Suc ?r \<mapsto> ?v), next_addr := Suc (Suc ?r)\<rparr>"
  have fresh: "?r \<notin> dom (cells h)"
    using assms(1) unfolding heap_ok_def by blast
  have ne: "?r \<noteq> store"
    using fresh assms(2) by auto
  have "store \<in> dom (cells h)"
    using assms(2) by auto
  then have "store < ?r"
    using assms(1) unfolding heap_ok_def by blast
  then have ne2: "Suc ?r \<noteq> store"
    by simp
  have call1: "filteredData_heap srt dateParse store searchTerm selectedStatus selectedType
      selectedTag sortBy sortOrder h = Some (?r, ?h')"
    by (rule filteredData_heap_eq[OF assms(2)])
  have st': "cells ?h' store = Some xs"
    using ne assms(2) by simp
  have call2: "filteredData_heap srt dateParse store searchTerm selectedStatus selectedType
      selectedTag sortBy sortOrder ?h' = Some (Suc ?r, ?h2)"
    using filteredData_heap_eq[OF st'] by simp
  have same: "\<forall>a\<in>dom (cells h). cells ?h' a = cells h a"
    using fresh by auto
  have ok': "heap_ok ?h'"
    using assms(1) unfolding heap_ok_def by (auto simp: less_Suc_eq)
  have second: "\<exists>r2 h2.
      filteredData_heap srt dateParse store searchTerm selectedStatus selectedType
        selectedTag sortBy sortOrder ?h' = Some (r2, h2) \<and>
      r2 \<noteq> ?r \<and> r2 \<noteq> store \<and> cells h2 store = Some xs \<and> cells h2 ?r = cells ?h' ?r"
    using call2 ne ne2 assms(2) by simp
  have "cells ?h' ?r = Some ?v" by simp
  with call1 fresh ne st' same ok' second show ?thesis by blast
qed

theorem filteredData_leaves_store_witness:
  "heap_ok \<lparr>cells = [0 \<mapsto> allSampleData], next_addr = 1\<rparr> \<and>
   (\<exists>r h'. filteredData_heap sort_keep isoDateParse 0 [] ''read'' ''all'' ''all'' SortTitle ''asc''
              \<lparr>cells = [0 \<mapsto> allSampleData], next_addr = 1\<rparr> = Some (r, h') \<and>
            r \<noteq> 0 \<and> cells h' 0 = Some allSampleData)"
proof -
  let ?h = "\<lparr>cells = [0 \<mapsto> allSampleData], next_addr = 1\<rparr>"
  have ok: "heap_ok ?h" by (simp add: heap_ok_def)
  have st: "cells ?h 0 = Some allSampleData" by simp
  from filteredData_leaves_store [OF ok st, of sort_keep isoDateParse "[]" "''read''" "''all''"
      "''all''" SortTitle "''asc''"]
  obtain r h' where "filteredData_heap sort_keep isoDateParse 0 [] ''read'' ''all'' ''all'' SortTitle
      ''asc'' ?h = Some (r, h')" "r \<noteq> 0" "cells h' 0 = Some allSampleData"
    by blast
  with ok show ?thesis by blast
qed

section \<open>The comparator\<close>

lemma sortValue_same_kind:
  "(\<exists>s. sortValue dateParse sortBy a = JStr s) \<longleftrightarrow> (\<exists>s. sortValue dateParse sortBy b = JStr s)"
  by (cases sortBy) (simp_all add: sortValue_def split: optnum.splits)

lemma comparator_title:
  "comparator dateParse SortTitle sortOrder a b =
     (if sortOrder = ''asc'' then (if title b < title a then 1 else -1)
      else (if title a < title b then 1 else -1))"
  by (simp add: comparator_def sortValue_def js_gt_def)

lemma sortValue_not_title:
  "sortBy \<noteq> SortTitle \<Longrightarrow> \<forall>s. sortValue dateParse sortBy a \<noteq> JStr s"
  by (cases sortBy) (simp_all add: sortValue_def split: optnum.splits)

lemma js_lt_numeric:
  "\<forall>s. v \<noteq> JStr s \<Longrightarrow>
   js_lt v w = (case (toNumber v, toNumber w) of (Some m, Some n) \<Rightarrow> m < n | _ \<Rightarrow> False)"
  by (cases v; cases w) auto

lemma comparator_numeric:
  assumes "sortBy \<noteq> SortTitle"
  shows "comparator dateParse sortBy sortOrder a b =
     (let m = toNumber (sortValue dateParse sortBy a); n = toNumber (sortValue dateParse sortBy b)
      in if sortOrder = ''asc''
         then (case (n, m) of (Some y, Some x) \<Rightarrow> if y < x then 1 else -1 | _ \<Rightarrow> -1)
         else (case (m, n) of (Some x, Some y) \<Rightarrow> if x < y then 1 else -1 | _ \<Rightarrow> -1))"
  using sortValue_not_title[OF assms, of dateParse a] sortValue_not_title[OF assms, of dateParse b]
  by (simp add: comparator_def js_gt_def Let_def js_lt_numeric split: option.splits)

lemma comparedKey_title: "comparedKey dateParse SortTitle a = Inl (title a)"
  by (simp add: comparedKey_def sortValue_def)

lemma comparedKey_numeric:
  "sortBy \<noteq> SortTitle \<Longrightarrow>
   comparedKey dateParse sortBy a = Inr (toNumber (sortValue dateParse sortBy a))"
  using sortValue_not_title[of sortBy dateParse a]
  by (cases "sortValue dateParse sortBy a") (auto simp: comparedKey_def)

lemma sameField_sortValue:
  "sameField sortBy a b \<Longrightarrow> sortValue dateParse sortBy a = sortValue dateParse sortBy b"
  by (cases sortBy) (simp_all add: sameField_def sortValue_def)

lemma comparator_range:
  "comparator dateParse sortBy sortOrder a b = 1 \<or> comparator dateParse sortBy sortOrder a b = -1"
  by (simp add: comparator_def Let_def)

lemma comparator_nonzero: "comparator dateParse sortBy sortOrder a b \<noteq> 0"
  using comparator_range[of dateParse sortBy sortOrder a b] by auto

lemma comparator_NaN:
  assumes "comparedKey dateParse sortBy a = Inr None \<or> comparedKey dateParse sortBy b = Inr None"
  shows "comparator dateParse sortBy sortOrder a b = -1"
proof (cases "sortBy = SortTitle")
  case True
  with assms show ?thesis by (simp add: comparedKey_title)
next
  case False
  with assms show ?thesis
    by (auto simp: comparator_numeric comparedKey_numeric Let_def split: option.splits)
qed

lemma comparator_tie:
  assumes "comparedKey dateParse sortBy a = comparedKey dateParse sortBy b"
  shows "comparator dateParse sortBy sortOrder a b = -1"
proof (cases "sortBy = SortTitle")
  case True
  with assms show ?thesis by (simp add: comparator_title comparedKey_title)
next
  case False
  with assms show ?thesis
    by (simp add: comparator_numeric comparedKey_numeric Let_def split: option.splits)
qed

lemma comparator_antisym:
  assumes "comparedKey dateParse sortBy a \<noteq> comparedKey dateParse sortBy b"
    and "comparedKey dateParse sortBy a \<noteq> Inr None"
    and "comparedKey dateParse sortBy b \<noteq> Inr None"
  shows "comparator dateParse sortBy sortOrder a b = - comparator dateParse sortBy sortOrder b a"
proof (cases "sortBy = SortTitle")
  case True
  with assms(1) have "title a \<noteq> title b" by (simp add: comparedKey_title)
  then have "title a < title b \<or> title b < title a" by (rule linorder_neqE) simp_all
  then show ?thesis using True by (auto simp: comparator_title)
next
  case False
  with assms show ?thesis
    by (auto simp: comparator_numeric comparedKey_numeric Let_def split: option.splits)
qed

text \<open>
  Claim C10, as stated, fails where it says that the comparator is antisymmetric
  for unequal keys. An entry with no \<^verbatim>\<open>rating\<close> property against one rated 4, sorted by
  rating: the keys differ and the comparator returns -1 in both argument orders,
  since \<^verbatim>\<open>undefined\<close> compares as \<^verbatim>\<open>NaN\<close>. The same for a date that does not parse
  against one that does, sorted by that date.
\<close>

theorem comparator_antisymmetry_counterexample:
  "rating (sampleEntry ''x'' [] ''read'' Absent) \<noteq> rating (sampleEntry ''y'' [] ''read'' (Number 4)) \<and>
   comparedKey isoDateParse SortRating (sampleEntry ''x'' [] ''read'' Absent) \<noteq>
     comparedKey isoDateParse SortRating (sampleEntry ''y'' [] ''read'' (Number 4)) \<and>
   comparator isoDateParse SortRating ''asc''
     (sampleEntry ''x'' [] ''read'' Absent) (sampleEntry ''y'' [] ''read'' (Number 4)) = -1 \<and>
   comparator isoDateParse SortRating ''asc''
     (sampleEntry ''y'' [] ''read'' (Number 4)) (sampleEntry ''x'' [] ''read'' Absent) = -1 \<and>
   comparedKey isoDateParse SortDateRead
       ((sampleEntry ''x'' [] ''read'' Null)\<lparr>dateRead := Some ''soon''\<rparr>) \<noteq>
     comparedKey isoDateParse SortDateRead
       ((sampleEntry ''y'' [] ''read'' Null)\<lparr>dateRead := Some ''2025-01-20''\<rparr>) \<and>
   comparator isoDateParse SortDateRead ''desc''
     ((sampleEntry ''x'' [] ''read'' Null)\<lparr>dateRead := Some ''soon''\<rparr>)
     ((sampleEntry ''y'' [] ''read'' Null)\<lparr>dateRead := Some ''2025-01-20''\<rparr>) = -1 \<and>
   comparator isoDateParse SortDateRead ''desc''
     ((sampleEntry ''y'' [] ''read'' Null)\<lparr>dateRead := Some ''2025-01-20''\<rparr>)
     ((sampleEntry ''x'' [] ''read'' Null)\<lparr>dateRead := Some ''soon''\<rparr>) = -1"
proof -
  have d: "isoDateParse ''soon'' = None" "isoDateParse ''2025-01-20'' = Some 1737331200000"
    by code_simp+
  show ?thesis
    by (simp add: comparator_def comparedKey_def sortValue_def sampleEntry_def orSentinel_def
        js_gt_def d)
qed

text \<open>
  Claim C10, amended. The comparator returns 1 or -1, never 0. For two entries with
  the same value in the sort field (more generally, with the same compared key: the
  string, or the number the value converts to, \<^verbatim>\<open>null\<close> being 0) it returns -1 in both
  argument orders, whatever the direction. For two different keys, neither of them
  \<^verbatim>\<open>NaN\<close>, the two argument orders give opposite results; when a key is \<^verbatim>\<open>NaN\<close> (a date
  that does not parse, a rating property that is not there) it returns -1 in both
  orders. The order of two tied entries is the sort's choice: of two sorts that meet
  the contract, one keeps the pair as it is and the other swaps it.
\<close>

theorem comparator_never_zero:
  "(comparator dateParse sortBy sortOrder a b = 1 \<or> comparator dateParse sortBy sortOrder a b = -1) \<and>
   (sameField sortBy a b \<longrightarrow>
      comparator dateParse sortBy sortOrder a b = -1 \<and> comparator dateParse sortBy sortOrder b a = -1) \<and>
   (comparedKey dateParse sortBy a = comparedKey dateParse sortBy b \<longrightarrow>
      comparator dateParse sortBy sortOrder a b = -1 \<and> comparator dateParse sortBy sortOrder b a = -1) \<and>
   (comparedKey dateParse sortBy a \<noteq> comparedKey dateParse sortBy b \<and>
    comparedKey dateParse sortBy a \<noteq> Inr None \<and> comparedKey dateParse sortBy b \<noteq> Inr None \<longrightarrow>
      comparator dateParse sortBy sortOrder a b = - comparator dateParse sortBy sortOrder b a) \<and>
   (comparedKey dateParse sortBy a = Inr None \<or> comparedKey dateParse sortBy b = Inr None \<longrightarrow>
      comparator dateParse sortBy sortOrder a b = -1 \<and> comparator dateParse sortBy sortOrder b a = -1) \<and>
   sort_contract (sort_keep :: (entry \<Rightarrow> entry \<Rightarrow> int) \<Rightarrow> entry list \<Rightarrow> entry list) \<and>
   sort_contract (sort_flip :: (entry \<Rightarrow> entry \<Rightarrow> int) \<Rightarrow> entry list \<Rightarrow> entry list) \<and>
   (sameField sortBy a b \<longrightarrow>
      sort_keep (comparator dateParse sortBy sortOrder) [a, b] = [a, b] \<and>
      sort_flip (comparator dateParse sortBy sortOrder) [a, b] = [b, a])"
proof -
  have key: "comparedKey dateParse sortBy a = comparedKey dateParse sortBy b" if "sameField sortBy a b"
    using sameField_sortValue[OF that, of dateParse] by (simp add: comparedKey_def)
  have tie: "comparator dateParse sortBy sortOrder a b = -1 \<and>
      comparator dateParse sortBy sortOrder b a = -1"
    if "comparedKey dateParse sortBy a = comparedKey dateParse sortBy b"
    using comparator_tie[OF that] comparator_tie[OF that[symmetric]] by simp
  have nan: "comparator dateParse sortBy sortOrder a b = -1 \<and>
      comparator dateParse sortBy sortOrder b a = -1"
    if "comparedKey dateParse sortBy a = Inr None \<or> comparedKey dateParse sortBy b = Inr None"
    using comparator_NaN[of dateParse sortBy a b sortOrder]
      comparator_NaN[of dateParse sortBy b a sortOrder] that by blast
  have sorts: "sort_keep (comparator dateParse sortBy sortOrder) [a, b] = [a, b] \<and>
      sort_flip (comparator dateParse sortBy sortOrder) [a, b] = [b, a]"
    if "sameField sortBy a b"
    using tie[OF key[OF that]] by (simp add: sort_keep_def sort_flip_def)
  show ?thesis
    using comparator_range[of dateParse sortBy sortOrder a b] key tie sorts nan
      comparator_antisym[of dateParse sortBy a b sortOrder]
      sort_keep_contract[where 'a = entry] sort_flip_contract[where 'a = entry]
    by blast
qed

theorem comparator_never_zero_witness:
  "sameField SortRating (sampleEntry ''x'' [] ''read'' (Number 4)) (sampleEntry ''y'' [] ''read'' (Number 4)) \<and>
   filteredData sort_keep isoDateParse
     [sampleEntry ''x'' [] ''read'' (Number 4), sampleEntry ''y'' [] ''read'' (Number 4)]
     [] ''all'' ''all'' ''all'' SortRating ''desc'' =
     [sampleEntry ''x'' [] ''read'' (Number 4), sampleEntry ''y'' [] ''read'' (Number 4)] \<and>
   filteredData sort_flip isoDateParse
     [sampleEntry ''x'' [] ''read'' (Number 4), sampleEntry ''y'' [] ''read'' (Number 4)]
     [] ''all'' ''all'' ''all'' SortRating ''desc'' =
     [sampleEntry ''y'' [] ''read'' (Number 4), sampleEntry ''x'' [] ''read'' (Number 4)] \<and>
   comparator isoDateParse SortRating ''asc''
     (sampleEntry ''x'' [] ''read'' (Number 3)) (sampleEntry ''y'' [] ''read'' (Number 5)) =
   - comparator isoDateParse SortRating ''asc''
     (sampleEntry ''y'' [] ''read'' (Number 5)) (sampleEntry ''x'' [] ''read'' (Number 3)) \<and>
   comparator isoDateParse SortRating ''asc''
     (sampleEntry ''x'' [] ''read'' Absent) (sampleEntry ''y'' [] ''read'' (Number 5)) = -1 \<and>
   comparator isoDateParse SortRating ''asc''
     (sampleEntry ''y'' [] ''read'' (Number 5)) (sampleEntry ''x'' [] ''read'' Absent) = -1"
proof -
  let ?x = "sampleEntry ''x'' [] ''read'' (Number 4)"
  let ?y = "sampleEntry ''y'' [] ''read'' (Number 4)"
  let ?u = "sampleEntry ''x'' [] ''read'' (Number 3)"
  let ?v = "sampleEntry ''y'' [] ''read'' (Number 5)"
  let ?w = "sampleEntry ''x'' [] ''read'' Absent"
  have same: "sameField SortRating ?x ?y"
    by (simp add: sameField_def sampleEntry_def)
  have keys: "comparedKey isoDateParse SortRating ?u \<noteq> comparedKey isoDateParse SortRating ?v \<and>
      comparedKey isoDateParse SortRating ?u \<noteq> Inr None \<and>
      comparedKey isoDateParse SortRating ?v \<noteq> Inr None"
    by (simp add: comparedKey_def sortValue_def sampleEntry_def)
  have nan: "comparedKey isoDateParse SortRating ?w = Inr None"
    by (simp add: comparedKey_def sortValue_def sampleEntry_def)
  have pass: "filter (passes [] ''all'' ''all'' ''all'') [?x, ?y] = [?x, ?y]"
    by (simp add: passes_def matchesSearch_empty matchesStatus_def matchesType_def matchesTag_def)
  show ?thesis
    using same keys pass nan
      comparator_never_zero [of isoDateParse SortRating "''desc''" ?x ?y]
      comparator_never_zero [of isoDateParse SortRating "''asc''" ?u ?v]
      comparator_never_zero [of isoDateParse SortRating "''asc''" ?w ?v]
    by (simp add: filteredData_def)
qed

section \<open>Sorted views\<close>

lemma contract_sorted_wrt:
  fixes k :: "'a \<Rightarrow> 'k::linorder"
  assumes "sort_contract srt"
    and "\<And>a b. a \<in> set xs \<Longrightarrow> b \<in> set xs \<Longrightarrow> (c a b \<le> 0) = (k a \<le> k b)"
    and "\<And>a b. a \<in> set xs \<Longrightarrow> b \<in> set xs \<Longrightarrow> c a b \<noteq> 0"
  shows "sorted_wrt (\<lambda>a b. k a \<le> k b) (srt c xs)"
proof -
  have tot: "total_on_list c xs"
    unfolding total_on_list_def notAfter_def using assms(2) by (simp add: linear)
  have tr: "trans_on_list c xs"
    unfolding trans_on_list_def notAfter_def
  proof (intro ballI impI)
    fix a b d assume "a \<in> set xs" "b \<in> set xs" "d \<in> set xs" "c a b \<le> 0" "c b d \<le> 0"
    then have "k a \<le> k b" "k b \<le> k d" using assms(2) by simp_all
    then have "k a \<le> k d" by (rule order_trans)
    then show "c a d \<le> 0" using assms(2) \<open>a \<in> set xs\<close> \<open>d \<in> set xs\<close> by simp
  qed
  have nz: "never_zero_on_list c xs"
    unfolding never_zero_on_list_def using assms(3) by blast
  have s: "sorted_wrt (notAfter c) (srt c xs)"
    using assms(1) nz tot tr unfolding sort_contract_def by blast
  have seteq: "set (srt c xs) = set xs"
    by (rule set_sort_contract[OF assms(1)])
  show ?thesis
  proof (rule sorted_wrt_mono_rel[OF _ s])
    fix x y assume "x \<in> set (srt c xs)" "y \<in> set (srt c xs)" "notAfter c x y"
    then show "k x \<le> k y" using seteq assms(2) by (simp add: notAfter_def)
  qed
qed

lemma contract_sorted_wrt_desc:
  fixes k :: "'a \<Rightarrow> 'k::linorder"
  assumes "sort_contract srt"
    and "\<And>a b. a \<in> set xs \<Longrightarrow> b \<in> set xs \<Longrightarrow> (c a b \<le> 0) = (k b \<le> k a)"
    and "\<And>a b. a \<in> set xs \<Longrightarrow> b \<in> set xs \<Longrightarrow> c a b \<noteq> 0"
  shows "sorted_wrt (\<lambda>a b. k b \<le> k a) (srt c xs)"
proof -
  have tot: "total_on_list c xs"
    unfolding total_on_list_def notAfter_def using assms(2) by (simp add: linear)
  have tr: "trans_on_list c xs"
    unfolding trans_on_list_def notAfter_def
  proof (intro ballI impI)
    fix a b d assume "a \<in> set xs" "b \<in> set xs" "d \<in> set xs" "c a b \<le> 0" "c b d \<le> 0"
    then have "k b \<le> k a" "k d \<le> k b" using assms(2) by simp_all
    then have "k d \<le> k a" by (rule order_trans[rotated])
    then show "c a d \<le> 0" using assms(2) \<open>a \<in> set xs\<close> \<open>d \<in> set xs\<close> by simp
  qed
  have nz: "never_zero_on_list c xs"
    unfolding never_zero_on_list_def using assms(3) by blast
  have s: "sorted_wrt (notAfter c) (srt c xs)"
    using assms(1) nz tot tr unfolding sort_contract_def by blast
  have seteq: "set (srt c xs) = set xs"
    by (rule set_sort_contract[OF assms(1)])
  show ?thesis
  proof (rule sorted_wrt_mono_rel[OF _ s])
    fix x y assume "x \<in> set (srt c xs)" "y \<in> set (srt c xs)" "notAfter c x y"
    then show "k y \<le> k x" using seteq assms(2) by (simp add: notAfter_def)
  qed
qed

lemma passes_no_filter: "passes [] ''all'' ''all'' ''all'' e"
  by (simp add: passes_def matchesSearch_empty matchesStatus_def matchesType_def matchesTag_def)

lemma filteredData_no_filter:
  "filteredData srt dateParse store [] ''all'' ''all'' ''all'' sortBy sortOrder =
     srt (comparator dateParse sortBy sortOrder) store"
  by (simp add: filteredData_def passes_no_filter)

lemma three_titles_order:
  "''Atomic Habits'' < ''The Lean Startup''" "''The Lean Startup'' < ''Why We Sleep''"
  "''Atomic Habits'' < ''Why We Sleep''"
  by code_simp+

lemma three_by_titles:
  assumes "mset ys = {#a, b, c#}"
    and "map title ys = [title a, title b, title c]"
    and "distinct [title a, title b, title c]"
  shows "ys = [a, b, c]"
proof -
  from assms(2) obtain y1 y2 y3 where ys: "ys = [y1, y2, y3]"
    and t: "title y1 = title a" "title y2 = title b" "title y3 = title c"
    by (auto simp: map_eq_Cons_conv)
  have "set ys = {a, b, c}"
    using mset_eq_setD[of ys "[a, b, c]"] assms(1) by simp
  then have "y1 \<in> {a, b, c}" "y2 \<in> {a, b, c}" "y3 \<in> {a, b, c}"
    using ys by auto
  with t assms(3) have "y1 = a" "y2 = b" "y3 = c" by auto
  with ys show ?thesis by simp
qed

text \<open>
  Claim C6. With no active filter, sorting by title any store made of three
  entries titled "Atomic Habits", "The Lean Startup" and "Why We Sleep", in
  whatever order the store holds them and whatever sort the engine has, gives them
  in exactly this order in the ascending direction and in exactly the reversed
  order in the descending direction.
\<close>

theorem title_sort_three:
  assumes "sort_contract srt"
    and "title a = ''Atomic Habits''" and "title b = ''The Lean Startup''"
    and "title c = ''Why We Sleep''"
    and "mset store = {#a, b, c#}"
  shows "filteredData srt dateParse store [] ''all'' ''all'' ''all'' SortTitle ''asc'' = [a, b, c] \<and>
         filteredData srt dateParse store [] ''all'' ''all'' ''all'' SortTitle ''desc'' = [c, b, a]"
proof -
  let ?asc = "srt (comparator dateParse SortTitle ''asc'') store"
  let ?desc = "srt (comparator dateParse SortTitle ''desc'') store"
  have ord: "title a < title b" "title b < title c" "title a < title c"
    using three_titles_order assms(2-4) by simp_all
  then have dist: "distinct [title a, title b, title c]" by auto
  have dist': "distinct [title c, title b, title a]" using dist by auto
  have m_asc: "mset ?asc = {#a, b, c#}" and m_desc: "mset ?desc = {#a, b, c#}"
    using assms(1,5) unfolding sort_contract_def by simp_all
  have "sorted_wrt (\<lambda>x y. title x \<le> title y) ?asc"
    by (rule contract_sorted_wrt[OF assms(1)]) (auto simp: comparator_title comparator_nonzero)
  then have s_asc: "sorted (map title ?asc)"
    by (simp add: sorted_map)
  have "mset (map title ?asc) = mset [title a, title b, title c]"
    using m_asc by simp
  moreover have "sorted [title a, title b, title c]"
    using ord by (simp add: order_less_imp_le)
  ultimately have "map title ?asc = [title a, title b, title c]"
    using s_asc by (metis properties_for_sort)
  then have asc: "?asc = [a, b, c]"
    by (rule three_by_titles[OF m_asc _ dist])
  have "sorted_wrt (\<lambda>x y. title y \<le> title x) ?desc"
    by (rule contract_sorted_wrt_desc[OF assms(1)]) (auto simp: comparator_title comparator_nonzero)
  then have "sorted_wrt (\<lambda>x y. title x \<le> title y) (rev ?desc)"
    by (simp add: sorted_wrt_rev)
  then have s_desc: "sorted (map title (rev ?desc))"
    by (simp add: sorted_map)
  have "mset (map title (rev ?desc)) = mset [title a, title b, title c]"
    using m_desc by simp
  with \<open>sorted [title a, title b, title c]\<close> s_desc
  have "map title (rev ?desc) = [title a, title b, title c]"
    by (metis properties_for_sort)
  moreover have "mset (rev ?desc) = {#a, b, c#}" using m_desc by simp
  ultimately have "rev ?desc = [a, b, c]"
    using dist by (intro three_by_titles)
  then have "rev (rev ?desc) = rev [a, b, c]" by (rule arg_cong)
  then have desc: "?desc = [c, b, a]" by simp
  show ?thesis
    using asc desc by (simp add: filteredData_no_filter)
qed


theorem title_sort_three_witness:
  "filteredData sort_flip isoDateParse
     [sampleEntry ''Why We Sleep'' [] ''read'' Null, sampleEntry ''Atomic Habits'' [] ''read'' Null,
      sampleEntry ''The Lean Startup'' [] ''read'' Null]
     [] ''all'' ''all'' ''all'' SortTitle ''asc'' =
     [sampleEntry ''Atomic Habits'' [] ''read'' Null, sampleEntry ''The Lean Startup'' [] ''read'' Null,
      sampleEntry ''Why We Sleep'' [] ''read'' Null] \<and>
   filteredData sort_flip isoDateParse
     [sampleEntry ''Why We Sleep'' [] ''read'' Null, sampleEntry ''Atomic Habits'' [] ''read'' Null,
      sampleEntry ''The Lean Startup'' [] ''read'' Null]
     [] ''all'' ''all'' ''all'' SortTitle ''desc'' =
     [sampleEntry ''Why We Sleep'' [] ''read'' Null, sampleEntry ''The Lean Startup'' [] ''read'' Null,
      sampleEntry ''Atomic Habits'' [] ''read'' Null]"
proof -
  let ?a = "sampleEntry ''Atomic Habits'' [] ''read'' Null"
  let ?b = "sampleEntry ''The Lean Startup'' [] ''read'' Null"
  let ?c = "sampleEntry ''Why We Sleep'' [] ''read'' Null"
  have t: "title ?a = ''Atomic Habits''" "title ?b = ''The Lean Startup''"
    "title ?c = ''Why We Sleep''"
    by (simp_all add: sampleEntry_def)
  have m: "mset [?c, ?a, ?b] = {#?a, ?b, ?c#}"
    by simp
  show ?thesis
    by (rule title_sort_three [OF sort_flip_contract t m])
qed

section \<open>Missing dates\<close>

lemma orSentinel_missing:
  "v = None \<or> v = Some [] \<Longrightarrow> orSentinel v = ''1900-01-01''"
  by (auto simp: orSentinel_def)

lemma sortValue_withSentinel:
  "sortValue dateParse sortBy (withSentinel sortBy a) = sortValue dateParse sortBy a"
  by (cases sortBy)
     (auto simp: sortValue_def withSentinel_def missingDate_def orSentinel_def)

lemma sortValue_missing:
  assumes "missingDate sortBy e"
  shows "sortValue dateParse sortBy e = JDate (dateParse ''1900-01-01'')"
  using assms
  by (cases sortBy) (auto simp: sortValue_def missingDate_def orSentinel_def)

lemma sentinelEarliest_key:
  assumes "sentinelEarliest dateParse sortBy store" and "e \<in> set store"
  obtains t0 t where "dateParse ''1900-01-01'' = Some t0"
    and "toNumber (sortValue dateParse sortBy e) = Some t"
    and "missingDate sortBy e \<Longrightarrow> t = t0" and "\<not> missingDate sortBy e \<Longrightarrow> t0 < t"
proof -
  from assms(1) obtain t0 where t0: "dateParse ''1900-01-01'' = Some t0"
    and all: "list_all (\<lambda>e. missingDate sortBy e \<or>
             (case toNumber (sortValue dateParse sortBy e) of None \<Rightarrow> False | Some t \<Rightarrow> t0 < t)) store"
    by (auto simp: sentinelEarliest_def split: option.splits)
  show thesis
  proof (cases "missingDate sortBy e")
    case True
    then have "toNumber (sortValue dateParse sortBy e) = Some t0"
      using sortValue_missing[OF True, of dateParse] t0 by simp
    with t0 True show thesis by (intro that[of t0 t0]) simp_all
  next
    case False
    with all assms(2) obtain t where "toNumber (sortValue dateParse sortBy e) = Some t" "t0 < t"
      by (auto simp: list_all_iff split: option.splits)
    with t0 False show thesis by (intro that[of t0 t]) simp_all
  qed
qed

lemma sentinelEarliest_asc:
  assumes "sentinelEarliest dateParse sortBy store" and "sortBy \<noteq> SortTitle"
    and "a \<in> set store" and "b \<in> set store"
  shows "(comparator dateParse sortBy ''asc'' a b \<le> 0) =
         (the (toNumber (sortValue dateParse sortBy a)) \<le> the (toNumber (sortValue dateParse sortBy b)))"
proof -
  obtain ta where ta: "toNumber (sortValue dateParse sortBy a) = Some ta"
    using sentinelEarliest_key[OF assms(1,3)] by metis
  obtain tb where tb: "toNumber (sortValue dateParse sortBy b) = Some tb"
    using sentinelEarliest_key[OF assms(1,4)] by metis
  show ?thesis
    by (simp add: comparator_numeric[OF assms(2)] ta tb Let_def not_less)
qed

lemma sentinelEarliest_desc:
  assumes "sentinelEarliest dateParse sortBy store" and "sortBy \<noteq> SortTitle"
    and "sortOrder \<noteq> ''asc''" and "a \<in> set store" and "b \<in> set store"
  shows "(comparator dateParse sortBy sortOrder a b \<le> 0) =
         (the (toNumber (sortValue dateParse sortBy b)) \<le> the (toNumber (sortValue dateParse sortBy a)))"
proof -
  obtain ta where ta: "toNumber (sortValue dateParse sortBy a) = Some ta"
    using sentinelEarliest_key[OF assms(1,4)] by metis
  obtain tb where tb: "toNumber (sortValue dateParse sortBy b) = Some tb"
    using sentinelEarliest_key[OF assms(1,5)] by metis
  show ?thesis
    using assms(3) by (simp add: comparator_numeric[OF assms(2)] ta tb Let_def not_less)
qed

lemma missing_of_key_le:
  assumes "sentinelEarliest dateParse sortBy store" and "a \<in> set store" and "b \<in> set store"
    and "the (toNumber (sortValue dateParse sortBy a)) \<le> the (toNumber (sortValue dateParse sortBy b))"
    and "missingDate sortBy b"
  shows "missingDate sortBy a"
proof (rule ccontr)
  assume na: "\<not> missingDate sortBy a"
  from sentinelEarliest_key[OF assms(1,2)] obtain t0 ta where
    a: "dateParse ''1900-01-01'' = Some t0" "toNumber (sortValue dateParse sortBy a) = Some ta"
       "\<not> missingDate sortBy a \<Longrightarrow> t0 < ta"
    by metis
  from sentinelEarliest_key[OF assms(1,3)] obtain t1 tb where
    b: "dateParse ''1900-01-01'' = Some t1" "toNumber (sortValue dateParse sortBy b) = Some tb"
       "missingDate sortBy b \<Longrightarrow> tb = t1"
    by metis
  from a b na assms(4,5) show False by simp
qed


text \<open>
  Claim C3. When the view is sorted by one of the two date fields, whatever the
  filters, the direction and the sort of the engine: no entry is dropped for missing
  the date (the view has exactly the entries that pass the filter); the comparator
  gives for any two entries what it gives for the same entries with the sentinel date
  1900-01-01 written into a missing date; and when the sentinel is earlier than every
  date present in the store, the entries without a date come before all others in
  the ascending view and after all others in a descending one. The fixture meets
  that condition for both date fields (shown with the instance below).
\<close>

theorem missing_date_as_sentinel:
  assumes "sort_contract srt" and "sortBy = SortDateAdded \<or> sortBy = SortDateRead"
  shows "mset (filteredData srt dateParse store searchTerm selectedStatus selectedType selectedTag
                 sortBy sortOrder) =
           mset (filter (passes searchTerm selectedStatus selectedType selectedTag) store) \<and>
         (\<forall>a b. comparator dateParse sortBy sortOrder a b =
                comparator dateParse sortBy sortOrder (withSentinel sortBy a) (withSentinel sortBy b)) \<and>
         (sentinelEarliest dateParse sortBy store \<longrightarrow>
            (\<forall>i j. i < j \<and>
                j < length (filteredData srt dateParse store searchTerm selectedStatus selectedType
                              selectedTag sortBy ''asc'') \<and>
                missingDate sortBy (filteredData srt dateParse store searchTerm selectedStatus
                              selectedType selectedTag sortBy ''asc'' ! j) \<longrightarrow>
                missingDate sortBy (filteredData srt dateParse store searchTerm selectedStatus
                              selectedType selectedTag sortBy ''asc'' ! i)) \<and>
            (sortOrder \<noteq> ''asc'' \<longrightarrow>
              (\<forall>i j. i < j \<and>
                j < length (filteredData srt dateParse store searchTerm selectedStatus selectedType
                              selectedTag sortBy sortOrder) \<and>
                missingDate sortBy (filteredData srt dateParse store searchTerm selectedStatus
                              selectedType selectedTag sortBy sortOrder ! i) \<longrightarrow>
                missingDate sortBy (filteredData srt dateParse store searchTerm selectedStatus
                              selectedType selectedTag sortBy sortOrder ! j))))"
proof (intro conjI allI impI)
  let ?xs = "filter (passes searchTerm selectedStatus selectedType selectedTag) store"
  let ?k = "\<lambda>e. the (toNumber (sortValue dateParse sortBy e))"
  have nt: "sortBy \<noteq> SortTitle" using assms(2) by auto
  have sub: "set ?xs \<subseteq> set store" by auto
  show "mset (filteredData srt dateParse store searchTerm selectedStatus selectedType selectedTag
                 sortBy sortOrder) = mset ?xs"
    by (rule mset_filteredData[OF assms(1)])
  show "comparator dateParse sortBy sortOrder a b =
        comparator dateParse sortBy sortOrder (withSentinel sortBy a) (withSentinel sortBy b)" for a b
    by (simp add: comparator_def sortValue_withSentinel)
  {
    fix i j
    let ?v = "filteredData srt dateParse store searchTerm selectedStatus selectedType selectedTag
                sortBy ''asc''"
    assume se: "sentinelEarliest dateParse sortBy store"
      and ij: "i < j \<and> j < length ?v \<and> missingDate sortBy (?v ! j)"
    have v: "?v = srt (comparator dateParse sortBy ''asc'') ?xs"
      by (simp add: filteredData_def)
    have "sorted_wrt (\<lambda>a b. ?k a \<le> ?k b) (srt (comparator dateParse sortBy ''asc'') ?xs)"
      by (rule contract_sorted_wrt[OF assms(1)])
        (use sub in \<open>auto simp: comparator_nonzero intro!: sentinelEarliest_asc[OF se nt]\<close>)
    then have le: "?k (?v ! i) \<le> ?k (?v ! j)"
      using ij unfolding v by (simp add: sorted_wrt_iff_nth_less)
    have "set ?v = set ?xs"
      unfolding v by (rule set_sort_contract[OF assms(1)])
    then have mem: "?v ! i \<in> set store" "?v ! j \<in> set store"
      using ij sub nth_mem[of i ?v] nth_mem[of j ?v] by auto
    show "missingDate sortBy (?v ! i)"
      using missing_of_key_le[OF se mem le] ij by simp
  }
  {
    fix i j
    let ?v = "filteredData srt dateParse store searchTerm selectedStatus selectedType selectedTag
                sortBy sortOrder"
    assume se: "sentinelEarliest dateParse sortBy store" and na: "sortOrder \<noteq> ''asc''"
      and ij: "i < j \<and> j < length ?v \<and> missingDate sortBy (?v ! i)"
    have v: "?v = srt (comparator dateParse sortBy sortOrder) ?xs"
      by (simp add: filteredData_def)
    have "sorted_wrt (\<lambda>a b. ?k b \<le> ?k a) (srt (comparator dateParse sortBy sortOrder) ?xs)"
      by (rule contract_sorted_wrt_desc[OF assms(1)])
        (use sub in \<open>auto simp: comparator_nonzero intro!: sentinelEarliest_desc[OF se nt na]\<close>)
    then have le: "?k (?v ! j) \<le> ?k (?v ! i)"
      using ij unfolding v by (simp add: sorted_wrt_iff_nth_less)
    have "set ?v = set ?xs"
      unfolding v by (rule set_sort_contract[OF assms(1)])
    then have mem: "?v ! j \<in> set store" "?v ! i \<in> set store"
      using ij sub nth_mem[of i ?v] nth_mem[of j ?v] by auto
    show "missingDate sortBy (?v ! j)"
      using missing_of_key_le[OF se mem le] ij by simp
  }
qed


theorem missing_date_as_sentinel_witness:
  "sentinelEarliest isoDateParse SortDateRead allSampleData \<and>
   sentinelEarliest isoDateParse SortDateAdded allSampleData \<and>
   mset (filteredData sort_keep isoDateParse allSampleData [] ''all'' ''all'' ''all'' SortDateRead ''asc'') =
     mset allSampleData \<and>
   missingDate SortDateRead (filteredData sort_keep isoDateParse allSampleData [] ''all'' ''all''
                   ''all'' SortDateRead ''asc'' ! 2) \<and>
   missingDate SortDateRead (filteredData sort_keep isoDateParse allSampleData [] ''all'' ''all''
                   ''all'' SortDateRead ''asc'' ! 0) \<and>
   map entry_id (filteredData sort_keep isoDateParse allSampleData [] ''all'' ''all'' ''all''
                   SortDateRead ''asc'') =
     [''3'', ''7'', ''10'', ''1'', ''2'', ''4'', ''5'', ''6'', ''8'', ''9''] \<and>
   map entry_id (filteredData sort_flip isoDateParse allSampleData [] ''all'' ''all'' ''all''
                   SortDateRead ''asc'') =
     [''10'', ''7'', ''3'', ''1'', ''2'', ''4'', ''5'', ''6'', ''8'', ''9'']"
proof -
  let ?v = "filteredData sort_keep isoDateParse allSampleData [] ''all'' ''all'' ''all''
              SortDateRead ''asc''"
  have se: "sentinelEarliest isoDateParse SortDateRead allSampleData"
    by code_simp
  have se': "sentinelEarliest isoDateParse SortDateAdded allSampleData"
    by code_simp
  have f: "filter (passes [] ''all'' ''all'' ''all'') allSampleData = allSampleData"
    by (simp add: passes_no_filter)
  have ids: "map entry_id ?v =
     [''3'', ''7'', ''10'', ''1'', ''2'', ''4'', ''5'', ''6'', ''8'', ''9'']"
    "map entry_id (filteredData sort_flip isoDateParse allSampleData [] ''all'' ''all'' ''all''
                   SortDateRead ''asc'') =
     [''10'', ''7'', ''3'', ''1'', ''2'', ''4'', ''5'', ''6'', ''8'', ''9'']"
    by code_simp+
  have third: "missingDate SortDateRead (?v ! 2)"
    by code_simp
  have "length (map entry_id ?v) = 10"
    unfolding ids by simp
  then have len: "(0::nat) < 2 \<and> 2 < length ?v"
    by simp
  note inst = missing_date_as_sentinel [OF sort_keep_contract, of SortDateRead isoDateParse
      allSampleData "[]" "''all''" "''all''" "''all''" "''asc''"]
  have m: "mset ?v = mset allSampleData"
    using inst f by simp
  have first: "missingDate SortDateRead (?v ! 0)"
    using inst se len third by blast
  show ?thesis
    using se se' m third first ids by blast
qed

end
